theory Spec2Isabelle
  imports Complex_Main "HOL-Library.Word" "HOL-Library.Code_Target_Numeral"
begin

unbundle bit_operations_syntax

section \<open>The CPU VDF streamer (src/vdf/src/c_bindings/streamer.cpp)\<close>

text \<open>
  The development follows \<^verbatim>\<open>streamer.cpp\<close> function by function. Multiprecision integers
  (\<^verbatim>\<open>integer\<close>, GMP's \<^verbatim>\<open>mpz_t\<close>) are \<^typ>\<open>int\<close>; \<^verbatim>\<open>uint8_t\<close> is \<^typ>\<open>8 word\<close>,
  \<^verbatim>\<open>uint32_t\<close> is \<^typ>\<open>32 word\<close>, \<^verbatim>\<open>uint64_t\<close> is \<^typ>\<open>64 word\<close>; \<^verbatim>\<open>size_t\<close> values that
  count bytes of a buffer are \<^typ>\<open>nat\<close>, and where the source narrows one to a byte the
  narrowing is written out. A pointer that may be null is an \<^typ>\<open>'a option\<close>; a byte
  buffer is a list.
\<close>

type_synonym byte = "8 word"

subsection \<open>Enumerations and structures of streamer.h\<close>

datatype cpu_vdf_error_t =
    CPU_VDF_SUCCESS
  | CPU_VDF_ERROR_INVALID_CONFIG
  | CPU_VDF_ERROR_INVALID_PARAMETERS
  | CPU_VDF_ERROR_MEMORY_ALLOCATION
  | CPU_VDF_ERROR_COMPUTATION_FAILED
  | CPU_VDF_ERROR_THREAD_ERROR
  | CPU_VDF_ERROR_INVALID_DISCRIMINANT
  | CPU_VDF_ERROR_INVALID_FORM
  | CPU_VDF_ERROR_PROOF_GENERATION_FAILED
  | CPU_VDF_ERROR_VERIFICATION_FAILED
  | CPU_VDF_ERROR_NOT_INITIALIZED
  | CPU_VDF_ERROR_ALREADY_RUNNING

datatype cpu_vdf_state_t =
    CPU_VDF_STATE_IDLE
  | CPU_VDF_STATE_COMPUTING
  | CPU_VDF_STATE_COMPLETED
  | CPU_VDF_STATE_ERROR
  | CPU_VDF_STATE_STOPPED

text \<open>A binary quadratic form \<^verbatim>\<open>(a, b, c)\<close> (the library's \<^verbatim>\<open>form\<close>).\<close>

record form =
  form_a :: int
  form_b :: int
  form_c :: int

record cpu_vdf_config_t =
  num_threads :: byte
  proof_threads :: byte
  enable_fast_mode :: bool
  enable_avx512 :: bool
  enable_logging :: bool
  segment_size :: "32 word"

record cpu_vdf_status_t =
  status_current_iteration :: "64 word"
  status_target_iterations :: "64 word"
  status_state :: cpu_vdf_state_t
  progress_percentage :: real
  status_iterations_per_second :: "64 word"
  elapsed_time_ms :: "64 word"
  has_proof_ready :: bool

text \<open>
  \<^verbatim>\<open>cpu_vdf_proof_t\<close>: \<open>proof_data\<close> is the \<^verbatim>\<open>data\<close> pointer (\<open>None\<close> when null) and
  \<open>proof_length\<close> the \<^verbatim>\<open>length\<close> field; the buffer the functions read is the first
  \<open>proof_length\<close> bytes of the data.
\<close>

record cpu_vdf_proof_t =
  proof_data :: "byte list option"
  proof_length :: nat
  proof_iterations :: "64 word"
  is_valid :: bool
  proof_recursion_level :: byte

subsection \<open>The class-group library (vdf.h) and GMP's primality test\<close>

text \<open>
  \<^verbatim>\<open>streamer.cpp\<close> includes \<^verbatim>\<open>vdf.h\<close>, which is not part of the repository's sources: the
  class-group operations it calls are therefore parameters of the model, collected in one
  record. An operation that can throw returns \<open>None\<close> for the exception;
  \<open>integer_root\<close> is the library's \<^verbatim>\<open>root(x, n)\<close> and \<open>compose\<close> its \<^verbatim>\<open>operator*\<close> on
  forms. GMP's \<^verbatim>\<open>mpz_probab_prime_p\<close> is a parameter as well.
\<close>

record vdf_lib =
  generate_discriminant :: "nat \<Rightarrow> int \<Rightarrow> int"
  generator :: "int \<Rightarrow> form option"
  check_valid :: "form \<Rightarrow> int \<Rightarrow> bool"
  square :: "form \<Rightarrow> form option"
  FastPowFormNucomp :: "form \<Rightarrow> int \<Rightarrow> int \<Rightarrow> int \<Rightarrow> form option"
  compose :: "form \<Rightarrow> form \<Rightarrow> form option"
  integer_root :: "int \<Rightarrow> nat \<Rightarrow> int"
  mpz_probab_prime_p :: "int \<Rightarrow> nat \<Rightarrow> bool"

subsection \<open>GMP import and export of bytes\<close>

text \<open>
  \<^verbatim>\<open>mpz_export(buf, &count, 1, 1, 0, 0, z)\<close> writes the absolute value of \<open>z\<close> as bytes,
  most significant first and without leading zero bytes, and stores the number of bytes
  written in \<open>count\<close>; for \<open>z = 0\<close> it writes nothing and \<open>count\<close> is 0. The sign of \<open>z\<close>
  is ignored. \<^verbatim>\<open>mpz_import(z, n, 1, 1, 0, 0, buf)\<close> reads \<open>n\<close> bytes, most significant
  first, as a non-negative integer.
\<close>

function be_bytes :: "nat \<Rightarrow> byte list" where
  "be_bytes n = (if n = 0 then [] else be_bytes (n div 256) @ [of_nat (n mod 256)])"
  by pat_completeness auto
termination
  by (relation "measure id") auto

declare be_bytes.simps [simp del]

definition mpz_export :: "int \<Rightarrow> byte list" where
  "mpz_export z = be_bytes (nat \<bar>z\<bar>)"

definition mpz_import :: "byte list \<Rightarrow> int" where
  "mpz_import bs = foldl (\<lambda>acc b. acc * 256 + uint b) 0 bs"

text \<open>
  The loop \<^verbatim>\<open>for (int i = 7; i >= 0; i--) push_back((t >> (i * 8)) & 0xFF)\<close> and the
  verifier's \<^verbatim>\<open>proof_iterations = (proof_iterations << 8) | *ptr++\<close>.
\<close>

definition be64 :: "64 word \<Rightarrow> byte list" where
  "be64 t = map (\<lambda>i. ucast (drop_bit (i * 8) t AND 255)) (rev [0..<8])"

definition read_be64 :: "byte list \<Rightarrow> 64 word" where
  "read_be64 bs = foldl (\<lambda>acc b. push_bit 8 acc OR ucast b) 0 bs"

subsection \<open>The hash placeholder and NextPrime\<close>

text \<open>
  \<^verbatim>\<open>sha256\<close> of the source is a deterministic 32-byte mixing function: byte \<open>i\<close> starts as
  \<open>i\<close>, and for every input byte \<open>data[j]\<close> it is xor-ed with \<open>data[j] + i + j\<close> and rotated
  left by one bit.
\<close>

definition sha256_step :: "nat \<Rightarrow> byte \<Rightarrow> nat \<times> byte \<Rightarrow> byte" where
  "sha256_step i h jd =
     (let h1 = h XOR (snd jd + of_nat i + of_nat (fst jd))
      in push_bit 1 h1 OR drop_bit 7 h1)"

definition sha256 :: "byte list \<Rightarrow> byte list" where
  "sha256 data =
     map (\<lambda>i. foldl (sha256_step i) (of_nat i) (zip [0..<length data] data)) [0..<32]"

text \<open>
  \<^verbatim>\<open>NextPrime\<close>: make the start odd, then step by 2 until \<^verbatim>\<open>mpz_probab_prime_p(n, 25)\<close>
  accepts. The loop has no bound, so the model is partial: \<open>None\<close> means that it never
  returns.
\<close>

partial_function (option) NextPrime_loop :: "vdf_lib \<Rightarrow> int \<Rightarrow> int option" where
  "NextPrime_loop lib n =
     (if mpz_probab_prime_p lib n 25 then Some n else NextPrime_loop lib (n + 2))"

declare NextPrime_loop.simps [code]

definition NextPrime :: "vdf_lib \<Rightarrow> int \<Rightarrow> int option" where
  "NextPrime lib start = NextPrime_loop lib (if even start then start + 1 else start)"

subsection \<open>The Fiat-Shamir challenge prime\<close>

text \<open>
  \<^verbatim>\<open>cpu_vdf_generate_proof\<close> (lines 632-671) and \<^verbatim>\<open>generate_checkpoint_proof\<close> (lines
  119-158) contain the same statements: the exported bytes of the discriminant, of the
  three coefficients of the start form and of the end form, and the iteration count as 8
  bytes are hashed; the hash is imported as an integer, bit 263 is set, and the next
  prime is taken.
\<close>

definition serialize_form :: "form \<Rightarrow> byte list" where
  "serialize_form f = mpz_export (form_a f) @ mpz_export (form_b f) @ mpz_export (form_c f)"

definition challenge_data :: "int \<Rightarrow> form \<Rightarrow> form \<Rightarrow> 64 word \<Rightarrow> byte list" where
  "challenge_data discriminant x y iterations =
     mpz_export discriminant @ serialize_form x @ serialize_form y @ be64 iterations"

definition fiat_shamir_prime :: "vdf_lib \<Rightarrow> int \<Rightarrow> form \<Rightarrow> form \<Rightarrow> 64 word \<Rightarrow> int option" where
  "fiat_shamir_prime lib discriminant x y iterations =
     NextPrime lib (set_bit 263 (mpz_import (sha256 (challenge_data discriminant x y iterations))))"

subsection \<open>Serialization of the final proof (cpu\_vdf\_generate\_proof, step 4)\<close>

text \<open>
  \<^verbatim>\<open>add_integer\<close>: the byte count \<open>size\<close> set by \<^verbatim>\<open>mpz_export\<close> is written as the two
  bytes \<^verbatim>\<open>(size >> 8) & 0xFF\<close> and \<^verbatim>\<open>size & 0xFF\<close>, followed by the bytes. The length byte
  of \<open>l\<close> is \<^verbatim>\<open>push_back(l_size)\<close>, the \<^verbatim>\<open>size_t\<close> narrowed to a byte.
\<close>

definition add_integer :: "int \<Rightarrow> byte list" where
  "add_integer val =
     (let bytes = mpz_export val; size = length bytes
      in [of_nat ((size div 256) mod 256), of_nat (size mod 256)] @ bytes)"

definition serialize_proof :: "byte \<Rightarrow> 64 word \<Rightarrow> int \<Rightarrow> form \<Rightarrow> byte list" where
  "serialize_proof recursion_level target_iterations l proof_form =
     [2, recursion_level] @ be64 target_iterations
       @ [of_nat (length (mpz_export l) mod 256)] @ mpz_export l
       @ add_integer (form_a proof_form)
       @ add_integer (form_b proof_form)
       @ add_integer (form_c proof_form)"

subsection \<open>The verifier's parser (cpu\_vdf\_verify\_proof, lines 786-832)\<close>

text \<open>
  The pointer \<^verbatim>\<open>ptr\<close> walking towards \<^verbatim>\<open>end\<close> is the list of bytes not yet read. Every
  \<^verbatim>\<open>return false\<close> of the parsing part is \<open>None\<close>.
\<close>

definition read_integer :: "byte list \<Rightarrow> (int \<times> byte list) option" where
  "read_integer buf =
     (if length buf < 2 then None
      else let size = unat (buf ! 0) * 256 + unat (buf ! 1); rest = drop 2 buf
           in if length rest < size then None
              else Some (mpz_import (take size rest), drop size rest))"

definition parse_proof :: "byte \<Rightarrow> 64 word \<Rightarrow> byte list \<Rightarrow> (int \<times> form) option" where
  "parse_proof recursion_level iterations buf =
     (case buf of [] \<Rightarrow> None | version # buf1 \<Rightarrow>
      if version \<noteq> 2 then None else
      case buf1 of [] \<Rightarrow> None | rec_byte # buf2 \<Rightarrow>
      if rec_byte \<noteq> recursion_level then None else
      if length buf2 < 8 then None else
      if read_be64 (take 8 buf2) \<noteq> iterations then None else
      case drop 8 buf2 of [] \<Rightarrow> None | l_size # buf3 \<Rightarrow>
      if length buf3 < unat l_size then None else
      let l = mpz_import (take (unat l_size) buf3) in
      case read_integer (drop (unat l_size) buf3) of None \<Rightarrow> None | Some (pa, buf4) \<Rightarrow>
      case read_integer buf4 of None \<Rightarrow> None | Some (pb, buf5) \<Rightarrow>
      case read_integer buf5 of None \<Rightarrow> None | Some (pc, buf6) \<Rightarrow>
        Some (l, \<lparr>form_a = pa, form_b = pb, form_c = pc\<rparr>))"

subsection \<open>The verifier (cpu\_vdf\_verify\_proof)\<close>

text \<open>
  The outcome records where the function returns. \<open>Rejected_arguments\<close> is the first
  \<^verbatim>\<open>return false\<close> (a null pointer or \<^verbatim>\<open>proof->length < 10\<close>); \<open>Rejected_blob\<close> is a
  \<^verbatim>\<open>return false\<close> of the parsing part; \<open>Rejected_form\<close> is the failed \<^verbatim>\<open>check_valid\<close>;
  \<open>Exception_caught\<close> is the \<^verbatim>\<open>catch\<close> block; \<open>Equation v\<close> is the final comparison
  of \<open>\<pi>^l * x^r\<close> with \<open>y\<close>. \<^verbatim>\<open>mpz_mod\<close> with a zero divisor is GMP's division by zero,
  which terminates the process: \<open>Division_by_zero\<close>.
\<close>

datatype verify_outcome =
    Rejected_arguments
  | Rejected_blob
  | Rejected_form
  | Exception_caught
  | Division_by_zero
  | Equation bool

text \<open>\<^verbatim>\<open>for (i = 0; i < iterations; i++) y = square(y)\<close>.\<close>

primrec square_loop :: "vdf_lib \<Rightarrow> nat \<Rightarrow> form \<Rightarrow> form option" where
  "square_loop lib 0 y = Some y"
| "square_loop lib (Suc n) y =
     (case square lib y of None \<Rightarrow> None | Some y' \<Rightarrow> square_loop lib n y')"

text \<open>
  Lines 845-891: the steps after parsing, for the discriminant \<open>D\<close>, the start form
  \<open>x\<close>, and the challenge \<open>l\<close> and proof form that the parser returned.
\<close>

definition wesolowski_check ::
  "vdf_lib \<Rightarrow> int \<Rightarrow> form \<Rightarrow> 64 word \<Rightarrow> int \<Rightarrow> form \<Rightarrow> verify_outcome" where
  "wesolowski_check lib discriminant x iterations l proof_form =
     (if \<not> check_valid lib proof_form discriminant then Rejected_form else
      case square_loop lib (unat iterations) x of None \<Rightarrow> Exception_caught | Some y \<Rightarrow>
      if l = 0 then Division_by_zero else
      let r = (2 ^ unat iterations) mod l;
          L_local = integer_root lib (- discriminant) 4
      in case FastPowFormNucomp lib proof_form discriminant l L_local of
           None \<Rightarrow> Exception_caught | Some pi_to_l \<Rightarrow>
         case FastPowFormNucomp lib x discriminant r L_local of
           None \<Rightarrow> Exception_caught | Some x_to_r \<Rightarrow>
         case compose lib pi_to_l x_to_r of
           None \<Rightarrow> Exception_caught | Some lhs \<Rightarrow>
         Equation (form_a lhs = form_a y \<and> form_b lhs = form_b y \<and> form_c lhs = form_c y))"

definition proof_bytes :: "cpu_vdf_proof_t \<Rightarrow> byte list" where
  "proof_bytes p = (case proof_data p of None \<Rightarrow> [] | Some d \<Rightarrow> take (proof_length p) d)"

text \<open>
  \<open>discriminant_bytes\<close> is the pointer with its \<open>discriminant_size\<close> bytes. The argument
  \<open>initial_form_bytes\<close> is tested at line 841 and the branch is empty
  (\<^verbatim>\<open>// Could parse from bytes, but for now use generator\<close>).
\<close>

definition verify_trace ::
  "vdf_lib \<Rightarrow> byte list option \<Rightarrow> byte list option \<Rightarrow> cpu_vdf_proof_t option
     \<Rightarrow> 64 word \<Rightarrow> byte \<Rightarrow> verify_outcome" where
  "verify_trace lib discriminant_bytes initial_form_bytes proof iterations recursion_level =
     (case discriminant_bytes of None \<Rightarrow> Rejected_arguments | Some dbytes \<Rightarrow>
      case proof of None \<Rightarrow> Rejected_arguments | Some p \<Rightarrow>
      if proof_data p = None \<or> proof_length p < 10 then Rejected_arguments else
      case parse_proof recursion_level iterations (proof_bytes p) of
        None \<Rightarrow> Rejected_blob
      | Some (l, proof_form) \<Rightarrow>
          let discriminant = - mpz_import dbytes in
          case generator lib discriminant of None \<Rightarrow> Exception_caught | Some x \<Rightarrow>
          wesolowski_check lib discriminant x iterations l proof_form)"

text \<open>The value returned to the caller; \<open>None\<close> when the process is terminated.\<close>

definition cpu_vdf_verify_proof ::
  "vdf_lib \<Rightarrow> byte list option \<Rightarrow> byte list option \<Rightarrow> cpu_vdf_proof_t option
     \<Rightarrow> 64 word \<Rightarrow> byte \<Rightarrow> bool option" where
  "cpu_vdf_verify_proof lib discriminant_bytes initial_form_bytes proof iterations recursion_level =
     (case verify_trace lib discriminant_bytes initial_form_bytes proof iterations recursion_level of
        Equation v \<Rightarrow> Some v
      | Division_by_zero \<Rightarrow> None
      | _ \<Rightarrow> Some False)"

subsection \<open>The engine context\<close>

text \<open>
  \<^verbatim>\<open>CheckpointProof\<close> and \<^verbatim>\<open>cpu_vdf_context\<close>. A default-constructed \<^verbatim>\<open>integer\<close> is 0
  and a default-constructed \<^verbatim>\<open>form\<close> has three such coefficients. The thread handle, the
  mutex, the condition variable and the callback pointers of the context are not
  modelled: the worker is a function applied to the context that the start function
  leaves, and the callbacks run client code.
\<close>

record CheckpointProof =
  cp_iteration :: "64 word"
  cp_checkpoint_form :: form
  cp_proof_form :: form
  cp_challenge_prime :: int
  cp_serialized_proof :: "byte list"

definition default_form :: form where
  "default_form = \<lparr>form_a = 0, form_b = 0, form_c = 0\<rparr>"

definition new_CheckpointProof :: CheckpointProof where
  "new_CheckpointProof =
     \<lparr>cp_iteration = 0, cp_checkpoint_form = default_form, cp_proof_form = default_form,
      cp_challenge_prime = 0, cp_serialized_proof = []\<rparr>"

record cpu_vdf_context =
  ctx_config :: cpu_vdf_config_t
  ctx_state :: cpu_vdf_state_t
  ctx_current_iteration :: "64 word"
  ctx_target_iterations :: "64 word"
  ctx_discriminant :: int
  ctx_initial_form :: form
  ctx_current_form :: form
  ctx_final_form :: form
  ctx_should_stop :: bool
  ctx_start_time :: int
  ctx_update_interval_ms :: "32 word"
  ctx_iterations_per_second :: "64 word"
  ctx_last_update_time :: int
  ctx_checkpoint_proofs :: "CheckpointProof list"
  ctx_checkpoint_interval :: "64 word"
  ctx_store_checkpoints :: bool
  ctx_generate_streaming_proofs :: bool

text \<open>\<^verbatim>\<open>cpu_vdf_create\<close>: the member initialisers of the structure and the copied configuration.\<close>

definition cpu_vdf_create :: "cpu_vdf_config_t option \<Rightarrow> cpu_vdf_context option" where
  "cpu_vdf_create config =
     (case config of None \<Rightarrow> None
      | Some cfg \<Rightarrow> Some
          \<lparr>ctx_config = cfg, ctx_state = CPU_VDF_STATE_IDLE, ctx_current_iteration = 0,
           ctx_target_iterations = 0, ctx_discriminant = 0, ctx_initial_form = default_form,
           ctx_current_form = default_form, ctx_final_form = default_form,
           ctx_should_stop = False, ctx_start_time = 0, ctx_update_interval_ms = 1000,
           ctx_iterations_per_second = 0, ctx_last_update_time = 0,
           ctx_checkpoint_proofs = [], ctx_checkpoint_interval = 0,
           ctx_store_checkpoints = False, ctx_generate_streaming_proofs = False\<rparr>)"

subsection \<open>Starting a computation\<close>

text \<open>
  Lines 399-402: \<^verbatim>\<open>seed = (seed << 8) | challenge_hash[i]\<close> for the first four bytes, in a
  32-bit \<^verbatim>\<open>int\<close>.
\<close>

definition challenge_seed :: "byte list \<Rightarrow> int" where
  "challenge_seed challenge_hash =
     sint (foldl (\<lambda>seed b. push_bit 8 seed OR ucast b) (0 :: 32 word) (take 4 challenge_hash))"

text \<open>
  \<^verbatim>\<open>cpu_vdf_start_computation\<close>. Both branches of the test of \<open>initial_form_bytes\<close> (lines
  406-413) assign \<^verbatim>\<open>form::generator(ctx->discriminant)\<close>. \<open>thread_ok\<close> says whether the
  \<^verbatim>\<open>std::thread\<close> could be created. The call of \<open>generator\<close> has no handler here: an
  exception leaves the function, and the result is \<open>None\<close>. The second component of the
  result is the context after the call.
\<close>

definition cpu_vdf_start_computation ::
  "vdf_lib \<Rightarrow> bool \<Rightarrow> cpu_vdf_context option \<Rightarrow> byte list option \<Rightarrow> byte list option
     \<Rightarrow> 64 word \<Rightarrow> nat \<Rightarrow> (cpu_vdf_error_t \<times> cpu_vdf_context option) option" where
  "cpu_vdf_start_computation lib thread_ok ctx challenge_hash initial_form_bytes iterations
       discriminant_size_bits =
     (case ctx of None \<Rightarrow> Some (CPU_VDF_ERROR_INVALID_PARAMETERS, None) | Some c \<Rightarrow>
      case challenge_hash of None \<Rightarrow> Some (CPU_VDF_ERROR_INVALID_PARAMETERS, Some c) | Some ch \<Rightarrow>
      if iterations = 0 then Some (CPU_VDF_ERROR_INVALID_PARAMETERS, Some c) else
      if ctx_state c = CPU_VDF_STATE_COMPUTING then Some (CPU_VDF_ERROR_ALREADY_RUNNING, Some c) else
      let d = generate_discriminant lib discriminant_size_bits (challenge_seed ch) in
      case (if initial_form_bytes \<noteq> None then generator lib d else generator lib d) of
        None \<Rightarrow> None
      | Some g \<Rightarrow>
          let c' = c\<lparr>ctx_discriminant := d, ctx_initial_form := g, ctx_current_form := g,
                     ctx_target_iterations := iterations, ctx_current_iteration := 0,
                     ctx_should_stop := False,
                     ctx_store_checkpoints := (0 < segment_size (ctx_config c)),
                     ctx_generate_streaming_proofs := (0 < segment_size (ctx_config c)),
                     ctx_checkpoint_proofs := []\<rparr>
          in Some (if thread_ok then CPU_VDF_SUCCESS else CPU_VDF_ERROR_THREAD_ERROR, Some c'))"

text \<open>
  Lines 450-472 of \<^verbatim>\<open>cpu_vdf_start_computation_with_discriminant\<close>: the imported magnitude
  is negated; \<^verbatim>\<open>mpz_mod_ui(_, D, 4)\<close> is the non-negative remainder.
\<close>

definition import_discriminant :: "byte list \<Rightarrow> int" where
  "import_discriminant discriminant_bytes =
     (let d = - mpz_import discriminant_bytes;
          mod_val = d mod 4
      in if mod_val \<noteq> 1
         then (let d' = d - mod_val + 1 in if 0 < d' then d' - 4 else d')
         else d)"

text \<open>
  Lines 475-508: the check of the sign and the set-up of the run, for the adjusted
  discriminant \<open>d\<close> that lines 450-472 have stored in the context.
\<close>

definition start_with_discriminant_checked ::
  "vdf_lib \<Rightarrow> bool \<Rightarrow> cpu_vdf_context \<Rightarrow> int \<Rightarrow> 64 word
     \<Rightarrow> cpu_vdf_error_t \<times> cpu_vdf_context option" where
  "start_with_discriminant_checked lib thread_ok c d iterations =
     (let c1 = c\<lparr>ctx_discriminant := d\<rparr>
      in if 0 \<le> d then (CPU_VDF_ERROR_INVALID_DISCRIMINANT, Some c1) else
         case generator lib d of
           None \<Rightarrow> (CPU_VDF_ERROR_INVALID_DISCRIMINANT, Some c1)
         | Some g \<Rightarrow>
             let c2 = c1\<lparr>ctx_initial_form := g\<rparr> in
             if \<not> check_valid lib g d then (CPU_VDF_ERROR_INVALID_FORM, Some c2) else
             let c3 = c2\<lparr>ctx_current_form := g, ctx_target_iterations := iterations,
                         ctx_current_iteration := 0, ctx_should_stop := False,
                         ctx_store_checkpoints := (0 < segment_size (ctx_config c)),
                         ctx_checkpoint_proofs := []\<rparr>
             in (if thread_ok then CPU_VDF_SUCCESS else CPU_VDF_ERROR_THREAD_ERROR, Some c3))"

text \<open>
  \<^verbatim>\<open>cpu_vdf_start_computation_with_discriminant\<close>. The argument \<open>initial_form\<close> is never
  read, and \<^verbatim>\<open>generate_streaming_proofs\<close> is not assigned.
\<close>

definition cpu_vdf_start_computation_with_discriminant ::
  "vdf_lib \<Rightarrow> bool \<Rightarrow> cpu_vdf_context option \<Rightarrow> byte list option \<Rightarrow> byte list option
     \<Rightarrow> 64 word \<Rightarrow> cpu_vdf_error_t \<times> cpu_vdf_context option" where
  "cpu_vdf_start_computation_with_discriminant lib thread_ok ctx discriminant_bytes initial_form
       iterations =
     (case ctx of None \<Rightarrow> (CPU_VDF_ERROR_INVALID_PARAMETERS, None) | Some c \<Rightarrow>
      case discriminant_bytes of None \<Rightarrow> (CPU_VDF_ERROR_INVALID_PARAMETERS, Some c) | Some dbytes \<Rightarrow>
      if length dbytes = 0 \<or> iterations = 0 then (CPU_VDF_ERROR_INVALID_PARAMETERS, Some c) else
      if ctx_state c = CPU_VDF_STATE_COMPUTING then (CPU_VDF_ERROR_ALREADY_RUNNING, Some c) else
      start_with_discriminant_checked lib thread_ok c (import_discriminant dbytes) iterations)"

subsection \<open>Status\<close>

text \<open>
  \<^verbatim>\<open>cpu_vdf_get_status\<close>. \<open>now\<close> is the reading of the steady clock in milliseconds. The
  percentage is a \<^verbatim>\<open>double\<close> in the source and the exact quotient here. The second
  component of the result is the status structure behind the pointer after the call.
\<close>

definition cpu_vdf_get_status ::
  "int \<Rightarrow> cpu_vdf_context option \<Rightarrow> cpu_vdf_status_t option
     \<Rightarrow> cpu_vdf_error_t \<times> cpu_vdf_status_t option" where
  "cpu_vdf_get_status now ctx status =
     (case ctx of None \<Rightarrow> (CPU_VDF_ERROR_INVALID_PARAMETERS, status) | Some c \<Rightarrow>
      case status of None \<Rightarrow> (CPU_VDF_ERROR_INVALID_PARAMETERS, None) | Some s \<Rightarrow>
      (CPU_VDF_SUCCESS, Some
         (s\<lparr>status_current_iteration := ctx_current_iteration c,
            status_target_iterations := ctx_target_iterations c,
            status_state := ctx_state c,
            progress_percentage :=
              (if 0 < ctx_target_iterations c
               then real (unat (ctx_current_iteration c)) / real (unat (ctx_target_iterations c)) * 100
               else 0),
            status_iterations_per_second := ctx_iterations_per_second c,
            has_proof_ready := False,
            elapsed_time_ms :=
              (if ctx_state c \<noteq> CPU_VDF_STATE_IDLE then of_int (now - ctx_start_time c) else 0)\<rparr>)))"

subsection \<open>Generating the final proof\<close>

text \<open>
  \<^verbatim>\<open>cpu_vdf_generate_proof\<close>. \<open>alloc_ok\<close> says whether \<^verbatim>\<open>new(std::nothrow)\<close> returned a
  buffer. The result is \<open>None\<close> when \<^verbatim>\<open>NextPrime\<close> does not return; an exception of
  \<^verbatim>\<open>FastPowFormNucomp\<close> is caught (line 743). The second component is the proof structure
  behind the pointer after the call.
\<close>

definition cpu_vdf_generate_proof ::
  "vdf_lib \<Rightarrow> bool \<Rightarrow> cpu_vdf_context option \<Rightarrow> byte \<Rightarrow> cpu_vdf_proof_t option
     \<Rightarrow> (cpu_vdf_error_t \<times> cpu_vdf_proof_t option) option" where
  "cpu_vdf_generate_proof lib alloc_ok ctx recursion_level proof =
     (case ctx of None \<Rightarrow> Some (CPU_VDF_ERROR_INVALID_PARAMETERS, proof) | Some c \<Rightarrow>
      case proof of None \<Rightarrow> Some (CPU_VDF_ERROR_INVALID_PARAMETERS, None) | Some p \<Rightarrow>
      if ctx_state c \<noteq> CPU_VDF_STATE_COMPLETED
      then Some (CPU_VDF_ERROR_COMPUTATION_FAILED, Some p) else
      case fiat_shamir_prime lib (ctx_discriminant c) (ctx_initial_form c) (ctx_final_form c)
             (ctx_target_iterations c) of
        None \<Rightarrow> None
      | Some l \<Rightarrow>
          let quotient = (2 ^ unat (ctx_target_iterations c)) div l;
              L_local = integer_root lib (- ctx_discriminant c) 4
          in case FastPowFormNucomp lib (ctx_initial_form c) (ctx_discriminant c) quotient L_local of
               None \<Rightarrow> Some (CPU_VDF_ERROR_PROOF_GENERATION_FAILED, Some p)
             | Some pf \<Rightarrow>
                 let bytes = serialize_proof recursion_level (ctx_target_iterations c) l pf in
                 if \<not> alloc_ok
                 then Some (CPU_VDF_ERROR_MEMORY_ALLOCATION, Some (p\<lparr>proof_data := None\<rparr>))
                 else Some (CPU_VDF_SUCCESS, Some
                        (p\<lparr>proof_data := Some bytes, proof_length := length bytes,
                           proof_iterations := ctx_target_iterations c, is_valid := True,
                           proof_recursion_level := recursion_level\<rparr>)))"

definition cpu_vdf_generate_proof_for_iterations ::
  "vdf_lib \<Rightarrow> bool \<Rightarrow> cpu_vdf_context option \<Rightarrow> 64 word \<Rightarrow> byte \<Rightarrow> cpu_vdf_proof_t option
     \<Rightarrow> (cpu_vdf_error_t \<times> cpu_vdf_proof_t option) option" where
  "cpu_vdf_generate_proof_for_iterations lib alloc_ok ctx target_iterations recursion_level proof =
     (case ctx of None \<Rightarrow> Some (CPU_VDF_ERROR_INVALID_PARAMETERS, proof) | Some c \<Rightarrow>
      if proof = None \<or> ctx_target_iterations c < target_iterations
      then Some (CPU_VDF_ERROR_INVALID_PARAMETERS, proof)
      else cpu_vdf_generate_proof lib alloc_ok ctx recursion_level proof)"

subsection \<open>Checkpoint proofs\<close>

text \<open>
  A call that can throw returns \<open>Exception\<close>; a call that may never return has an
  \<open>option\<close> around its result, \<open>None\<close> for no return.
\<close>

datatype 'a result = Value 'a | Exception

definition add_form :: "form \<Rightarrow> byte list" where
  "add_form f = add_integer (form_a f) @ add_integer (form_b f) @ add_integer (form_c f)"

text \<open>
  \<^verbatim>\<open>generate_checkpoint_proof(start_form, end_form, iterations, discriminant)\<close>. The
  parameter \<open>iterations\<close> is what the challenge hashes, the exponent of \<open>2\<close> in the quotient,
  the field \<open>iteration\<close> of the result and the 8 bytes after the version byte.
\<close>

definition generate_checkpoint_proof ::
  "vdf_lib \<Rightarrow> form \<Rightarrow> form \<Rightarrow> 64 word \<Rightarrow> int \<Rightarrow> CheckpointProof result option" where
  "generate_checkpoint_proof lib start_form end_form iterations discriminant =
     (case fiat_shamir_prime lib discriminant start_form end_form iterations of
        None \<Rightarrow> None
      | Some l \<Rightarrow>
          let quotient = (2 ^ unat iterations) div l;
              L_local = integer_root lib (- discriminant) 4
          in case FastPowFormNucomp lib start_form discriminant quotient L_local of
               None \<Rightarrow> Some Exception
             | Some pf \<Rightarrow> Some (Value
                 \<lparr>cp_iteration = iterations, cp_checkpoint_form = end_form, cp_proof_form = pf,
                  cp_challenge_prime = l,
                  cp_serialized_proof =
                    [3] @ be64 iterations @ add_form end_form @ add_form pf
                      @ [of_nat (length (mpz_export l) mod 256)] @ mpz_export l\<rparr>))"

subsection \<open>The worker (vdf\_computation\_thread)\<close>

text \<open>
  The local variables of the worker, with the context it updates. \<open>w_polls\<close> counts the
  loads of \<^verbatim>\<open>ctx->should_stop\<close> made so far. The flag is raised by
  \<^verbatim>\<open>cpu_vdf_stop_computation\<close> in another thread; the argument \<open>stop_after\<close> of the worker
  says before which load that happens (\<open>None\<close>: never). A load reads true when the flag
  was already set in the context or has been raised by then. The performance counters
  (lines 299-311) read the clock and call the progress callback; they are not modelled.
\<close>

record worker =
  w_current :: form
  w_last_checkpoint :: form
  w_last_checkpoint_iter :: "64 word"
  w_polls :: nat
  w_ctx :: cpu_vdf_context

datatype worker_result = Running worker | Thrown worker

definition should_stop_load :: "nat option \<Rightarrow> worker \<Rightarrow> bool \<times> worker" where
  "should_stop_load stop_after w =
     (let flag = (ctx_should_stop (w_ctx w)
                   \<or> (case stop_after of None \<Rightarrow> False | Some k \<Rightarrow> k \<le> w_polls w))
      in (flag, w\<lparr>w_polls := Suc (w_polls w),
                   w_ctx := (w_ctx w)\<lparr>ctx_should_stop := flag\<rparr>\<rparr>))"

text \<open>Lines 263-294: the checkpoint taken after the squaring number \<open>current_iter\<close>.\<close>

definition record_checkpoint :: "vdf_lib \<Rightarrow> worker \<Rightarrow> 64 word \<Rightarrow> worker_result option" where
  "record_checkpoint lib w current_iter =
     (let c = w_ctx w in
      if ctx_store_checkpoints c \<and> 0 < ctx_checkpoint_interval c then
        if current_iter mod ctx_checkpoint_interval c = 0 \<or> current_iter = ctx_target_iterations c
        then
          if ctx_generate_streaming_proofs c then
            (case generate_checkpoint_proof lib (w_last_checkpoint w) (w_current w)
                    (current_iter - w_last_checkpoint_iter w) (ctx_discriminant c) of
               None \<Rightarrow> None
             | Some Exception \<Rightarrow> Some (Thrown w)
             | Some (Value checkpoint_proof) \<Rightarrow> Some (Running
                 (w\<lparr>w_ctx := c\<lparr>ctx_checkpoint_proofs := ctx_checkpoint_proofs c
                                   @ [checkpoint_proof\<lparr>cp_iteration := current_iter\<rparr>]\<rparr>,
                    w_last_checkpoint := w_current w,
                    w_last_checkpoint_iter := current_iter\<rparr>)))
          else Some (Running
                 (w\<lparr>w_ctx := c\<lparr>ctx_checkpoint_proofs := ctx_checkpoint_proofs c
                       @ [new_CheckpointProof\<lparr>cp_iteration := current_iter,
                                               cp_checkpoint_form := w_current w\<rparr>]\<rparr>\<rparr>))
        else Some (Running w)
      else Some (Running w))"

text \<open>
  The inner loop, lines 257-295:
  \<^verbatim>\<open>for (i = 0; i < iterations_in_batch && !should_stop.load(); i++)\<close>.
\<close>

partial_function (option) batch_loop ::
  "vdf_lib \<Rightarrow> nat option \<Rightarrow> 64 word \<Rightarrow> 64 word \<Rightarrow> 64 word \<Rightarrow> worker \<Rightarrow> worker_result option" where
  "batch_loop lib stop_after completed_iterations iterations_in_batch i w =
     (if i < iterations_in_batch then
        (case should_stop_load stop_after w of (stop, w1) \<Rightarrow>
           if stop then Some (Running w1) else
            (case square lib (w_current w1) of
               None \<Rightarrow> Some (Thrown w1)
             | Some f \<Rightarrow>
                (case record_checkpoint lib
                        (w1\<lparr>w_current := f,
                            w_ctx := (w_ctx w1)\<lparr>ctx_current_iteration := completed_iterations + i + 1\<rparr>\<rparr>)
                        (completed_iterations + i + 1) of
                   None \<Rightarrow> None
                 | Some (Thrown w2) \<Rightarrow> Some (Thrown w2)
                 | Some (Running w2) \<Rightarrow>
                     batch_loop lib stop_after completed_iterations iterations_in_batch (i + 1) w2)))
      else Some (Running w))"

declare batch_loop.simps [code]

text \<open>
  The outer loop, lines 252-312, with \<^verbatim>\<open>batch_size = 1000\<close>:
  \<^verbatim>\<open>while (completed_iterations < target_iterations && !should_stop.load())\<close>.
\<close>

partial_function (option) computation_loop ::
  "vdf_lib \<Rightarrow> nat option \<Rightarrow> 64 word \<Rightarrow> worker \<Rightarrow> worker_result option" where
  "computation_loop lib stop_after completed_iterations w =
     (if completed_iterations < ctx_target_iterations (w_ctx w) then
        (case should_stop_load stop_after w of (stop, w1) \<Rightarrow>
           if stop then Some (Running w1) else
            (let batch_end = min (completed_iterations + 1000) (ctx_target_iterations (w_ctx w1));
                 iterations_in_batch = batch_end - completed_iterations
             in case batch_loop lib stop_after completed_iterations iterations_in_batch 0 w1 of
                  None \<Rightarrow> None
                | Some (Thrown w2) \<Rightarrow> Some (Thrown w2)
                | Some (Running w2) \<Rightarrow> computation_loop lib stop_after batch_end w2))
      else Some (Running w))"

declare computation_loop.simps [code]

text \<open>Lines 237-250: the checkpoint interval and the record of the initial state.\<close>

definition init_checkpoints :: "cpu_vdf_context \<Rightarrow> cpu_vdf_context" where
  "init_checkpoints c =
     (if ctx_store_checkpoints c \<and> 0 < ctx_target_iterations c then
        (let c1 = c\<lparr>ctx_checkpoint_interval :=
                      (if 0 < segment_size (ctx_config c) then ucast (segment_size (ctx_config c))
                       else 65536)\<rparr>
         in if ctx_generate_streaming_proofs c1
            then c1\<lparr>ctx_checkpoint_proofs := ctx_checkpoint_proofs c1
                      @ [new_CheckpointProof\<lparr>cp_iteration := 0,
                                              cp_checkpoint_form := ctx_initial_form c1,
                                              cp_serialized_proof := [4]\<rparr>]\<rparr>
            else c1)
      else c)"

text \<open>
  \<^verbatim>\<open>vdf_computation_thread\<close>. \<open>started_at\<close> is the clock reading at line 226. The result is
  the context when the thread ends, \<open>None\<close> when it does not end.
\<close>

definition vdf_computation_thread ::
  "vdf_lib \<Rightarrow> nat option \<Rightarrow> int \<Rightarrow> cpu_vdf_context \<Rightarrow> cpu_vdf_context option" where
  "vdf_computation_thread lib stop_after started_at ctx =
     (let c0 = ctx\<lparr>ctx_state := CPU_VDF_STATE_COMPUTING, ctx_start_time := started_at,
                   ctx_last_update_time := started_at\<rparr>;
          w0 = \<lparr>w_current = ctx_initial_form c0, w_last_checkpoint = ctx_initial_form c0,
                w_last_checkpoint_iter = 0, w_polls = 0, w_ctx = init_checkpoints c0\<rparr>
      in case computation_loop lib stop_after 0 w0 of
           None \<Rightarrow> None
         | Some (Thrown w) \<Rightarrow> Some ((w_ctx w)\<lparr>ctx_state := CPU_VDF_STATE_ERROR\<rparr>)
         | Some (Running w) \<Rightarrow>
            (case should_stop_load stop_after w of (stop, w1) \<Rightarrow>
               if \<not> stop
               then Some ((w_ctx w1)\<lparr>ctx_final_form := w_current w1,
                                     ctx_current_form := w_current w1,
                                     ctx_state := CPU_VDF_STATE_COMPLETED\<rparr>)
               else Some ((w_ctx w1)\<lparr>ctx_state := CPU_VDF_STATE_STOPPED\<rparr>)))"

subsection \<open>Reading the checkpoints\<close>

text \<open>
  \<^verbatim>\<open>cpu_vdf_checkpoint_proof_t\<close> as \<^verbatim>\<open>cpu_vdf_get_checkpoint_proofs\<close> fills it: the three
  coefficient buffers hold the exported bytes, \<open>out_data_size\<close> is the largest of the three
  counts.
\<close>

record cpu_vdf_checkpoint_proof_t =
  out_iteration :: "64 word"
  out_a_data :: "byte list"
  out_b_data :: "byte list"
  out_c_data :: "byte list"
  out_data_size :: nat
  out_proof_data :: "byte list option"
  out_proof_length :: nat
  has_proof :: bool

definition export_checkpoint :: "CheckpointProof \<Rightarrow> cpu_vdf_checkpoint_proof_t" where
  "export_checkpoint cp =
     (let bytes_a = mpz_export (form_a (cp_checkpoint_form cp));
          bytes_b = mpz_export (form_b (cp_checkpoint_form cp));
          bytes_c = mpz_export (form_c (cp_checkpoint_form cp))
      in \<lparr>out_iteration = cp_iteration cp,
          out_a_data = bytes_a, out_b_data = bytes_b, out_c_data = bytes_c,
          out_data_size = max (length bytes_a) (max (length bytes_b) (length bytes_c)),
          out_proof_data =
            (if cp_serialized_proof cp \<noteq> [] then Some (cp_serialized_proof cp) else None),
          out_proof_length = length (cp_serialized_proof cp),
          has_proof = (cp_serialized_proof cp \<noteq> [])\<rparr>)"

text \<open>
  The loop of lines 1164-1195 over the stored checkpoints; \<open>out\<close> holds the \<open>count\<close>
  entries written so far.
\<close>

fun copy_checkpoints ::
  "64 word \<Rightarrow> 64 word \<Rightarrow> nat \<Rightarrow> CheckpointProof list \<Rightarrow> cpu_vdf_checkpoint_proof_t list
     \<Rightarrow> cpu_vdf_checkpoint_proof_t list" where
  "copy_checkpoints start_iteration end_iteration max_proofs [] out = out"
| "copy_checkpoints start_iteration end_iteration max_proofs (cp # cps) out =
     (if start_iteration \<le> cp_iteration cp \<and> cp_iteration cp \<le> end_iteration then
        (if max_proofs \<le> length out then out
         else copy_checkpoints start_iteration end_iteration max_proofs cps
                (out @ [export_checkpoint cp]))
      else copy_checkpoints start_iteration end_iteration max_proofs cps out)"

text \<open>
  \<^verbatim>\<open>cpu_vdf_get_checkpoint_proofs\<close>: \<open>proofs_given\<close> says that the array pointer is not
  null, \<open>num_proofs\<close> is the capacity behind the pointer (\<open>None\<close> when null). The result
  holds the entries written; their number is stored in \<^verbatim>\<open>*num_proofs\<close>.
\<close>

definition cpu_vdf_get_checkpoint_proofs ::
  "cpu_vdf_context option \<Rightarrow> 64 word \<Rightarrow> 64 word \<Rightarrow> bool \<Rightarrow> nat option
     \<Rightarrow> cpu_vdf_error_t \<times> cpu_vdf_checkpoint_proof_t list" where
  "cpu_vdf_get_checkpoint_proofs ctx start_iteration end_iteration proofs_given num_proofs =
     (case ctx of None \<Rightarrow> (CPU_VDF_ERROR_INVALID_PARAMETERS, []) | Some c \<Rightarrow>
      case num_proofs of None \<Rightarrow> (CPU_VDF_ERROR_INVALID_PARAMETERS, []) | Some max_proofs \<Rightarrow>
      if \<not> proofs_given then (CPU_VDF_ERROR_INVALID_PARAMETERS, []) else
      (CPU_VDF_SUCCESS,
       copy_checkpoints start_iteration end_iteration max_proofs (ctx_checkpoint_proofs c) []))"

section \<open>Definitions used by the statements\<close>

subsection \<open>The serialized proof as the specification describes it\<close>

text \<open>
  The magnitudes of a form's coefficients, which is what \<^verbatim>\<open>mpz_export\<close> keeps of them.
\<close>

definition abs_form :: "form \<Rightarrow> form" where
  "abs_form f = \<lparr>form_a = \<bar>form_a f\<bar>, form_b = \<bar>form_b f\<bar>, form_c = \<bar>form_c f\<bar>\<rparr>"

text \<open>
  The length fields of the final proof are one byte for \<open>l\<close> and two bytes for every
  coefficient: \<open>lengths_fit\<close> says that every byte count is small enough for its field.
\<close>

definition lengths_fit :: "int \<Rightarrow> form \<Rightarrow> bool" where
  "lengths_fit l pf =
     (length (mpz_export l) < 256 \<and> length (mpz_export (form_a pf)) < 65536
      \<and> length (mpz_export (form_b pf)) < 65536 \<and> length (mpz_export (form_c pf)) < 65536)"

text \<open>
  The layout of section 6 of the specification: version 2, the recursion level, \<open>T\<close> in
  8 bytes, a length byte and the magnitude of \<open>l\<close>, and the three coefficients of the
  proof form, each after two length bytes. The length byte of \<open>l\<close> is the byte count of
  the magnitude of \<open>l\<close> modulo 256, and the two length bytes of a coefficient, read as a
  big-endian number, are the byte count of its magnitude modulo 65536: the byte count
  itself whenever it fits the field.
\<close>

definition proof_layout :: "byte \<Rightarrow> 64 word \<Rightarrow> int \<Rightarrow> form \<Rightarrow> byte list \<Rightarrow> bool" where
  "proof_layout recursion_level T l pf blob =
     (\<exists>lsz ah al bh bl ch cl.
        blob = [2, recursion_level] @ be64 T @ [lsz] @ mpz_export l
                 @ [ah, al] @ mpz_export (form_a pf)
                 @ [bh, bl] @ mpz_export (form_b pf)
                 @ [ch, cl] @ mpz_export (form_c pf)
        \<and> unat lsz = length (mpz_export l) mod 256
        \<and> unat ah * 256 + unat al = length (mpz_export (form_a pf)) mod 65536
        \<and> unat bh * 256 + unat bl = length (mpz_export (form_b pf)) mod 65536
        \<and> unat ch * 256 + unat cl = length (mpz_export (form_c pf)) mod 65536)"

text \<open>
  A truncated blob, by offsets: the buffer is shorter than the ten header bytes and the
  length byte of \<open>l\<close>, or one of the length-prefixed fields (\<open>l\<close>, then the three
  coefficients, whose two length bytes are read at \<open>a_off\<close>, \<open>b_off\<close> and \<open>c_off\<close>) runs
  past its end.
\<close>

definition be16_at :: "byte list \<Rightarrow> nat \<Rightarrow> nat" where
  "be16_at buf off = unat (buf ! off) * 256 + unat (buf ! (off + 1))"

definition blob_truncated :: "byte list \<Rightarrow> bool" where
  "blob_truncated buf =
     (length buf < 11 \<or>
      (let a_off = 11 + unat (buf ! 10) in
       length buf < a_off + 2 \<or>
       (let b_off = a_off + 2 + be16_at buf a_off in
        length buf < b_off + 2 \<or>
        (let c_off = b_off + 2 + be16_at buf b_off in
         length buf < c_off + 2 \<or>
         length buf < c_off + 2 + be16_at buf c_off))))"

subsection \<open>Concrete inputs\<close>

text \<open>
  An instance of the library interface on which the model can be run. It is the class
  group restricted to the principal form \<open>(1, 1, (1 - D) / 4)\<close>, the form the specification
  gives as \<^verbatim>\<open>generator(D)\<close>: the square, every power and every product of the principal
  form is the principal form, so \<open>square\<close> and \<open>FastPowFormNucomp\<close> return their argument
  and \<open>compose\<close> returns its second argument. \<open>check_valid\<close> compares \<open>b\<^sup>2 - 4ac\<close> with the
  discriminant. The discriminant generator returns \<open>-7\<close>, the root is not used by these
  operations, and the primality test accepts every candidate, so that \<^verbatim>\<open>NextPrime\<close>
  returns the first odd number it tries.
\<close>

definition principal_lib :: vdf_lib where
  "principal_lib =
     \<lparr>generate_discriminant = (\<lambda>bits seed. - 7),
      generator = (\<lambda>d. Some \<lparr>form_a = 1, form_b = 1, form_c = (1 - d) div 4\<rparr>),
      check_valid = (\<lambda>f d. form_b f * form_b f - 4 * form_a f * form_c f = d),
      square = (\<lambda>f. Some f),
      FastPowFormNucomp = (\<lambda>f d e L. Some f),
      compose = (\<lambda>f g. Some g),
      integer_root = (\<lambda>x n. 0),
      mpz_probab_prime_p = (\<lambda>n reps. True)\<rparr>"

text \<open>The principal form of discriminant \<open>-7\<close>.\<close>

definition g7 :: form where
  "g7 = \<lparr>form_a = 1, form_b = 1, form_c = 2\<rparr>"

text \<open>
  A second instance of the library interface, in which a power depends on its exponent:
  the class group of discriminant \<open>-23\<close> on its reduced forms. It has three elements, the
  principal form \<open>(1, 1, 6)\<close>, which is the identity, and \<open>(2, 1, 3)\<close> and \<open>(2, -1, 3)\<close>,
  which are inverse to each other; the group is cyclic of order 3, so that the square of
  each of the two is the other and the cube of each is the principal form.
  \<open>class23_index\<close> numbers the three forms as the powers 0, 1 and 2 of \<open>(2, 1, 3)\<close>, and
  \<open>class23_form\<close> is the form of a power. The power of a form is the form of its index
  times the exponent, a product is the form of the sum of the indexes, and the operations
  throw on every other form. \<open>check_valid\<close> compares \<open>b\<^sup>2 - 4ac\<close> with the discriminant,
  the fourth root of 23 is 2 rounded down, the discriminant generator returns \<open>-23\<close>, and
  the primality test accepts every candidate.
\<close>

definition class23_index :: "form \<Rightarrow> nat option" where
  "class23_index f =
     (if f = \<lparr>form_a = 1, form_b = 1, form_c = 6\<rparr> then Some 0
      else if f = \<lparr>form_a = 2, form_b = 1, form_c = 3\<rparr> then Some 1
      else if f = \<lparr>form_a = 2, form_b = - 1, form_c = 3\<rparr> then Some 2
      else None)"

definition class23_form :: "nat \<Rightarrow> form" where
  "class23_form i =
     (if i mod 3 = 0 then \<lparr>form_a = 1, form_b = 1, form_c = 6\<rparr>
      else if i mod 3 = 1 then \<lparr>form_a = 2, form_b = 1, form_c = 3\<rparr>
      else \<lparr>form_a = 2, form_b = - 1, form_c = 3\<rparr>)"

definition class23_lib :: vdf_lib where
  "class23_lib =
     \<lparr>generate_discriminant = (\<lambda>bits seed. - 23),
      generator = (\<lambda>d. Some \<lparr>form_a = 1, form_b = 1, form_c = (1 - d) div 4\<rparr>),
      check_valid = (\<lambda>f d. form_b f * form_b f - 4 * form_a f * form_c f = d),
      square = (\<lambda>f. map_option (\<lambda>i. class23_form (2 * i)) (class23_index f)),
      FastPowFormNucomp = (\<lambda>f d e L. map_option (\<lambda>i. class23_form (i * nat e)) (class23_index f)),
      compose = (\<lambda>f g. case class23_index f of None \<Rightarrow> None
                 | Some i \<Rightarrow> map_option (\<lambda>j. class23_form (i + j)) (class23_index g)),
      integer_root = (\<lambda>x n. 2),
      mpz_probab_prime_p = (\<lambda>n reps. True)\<rparr>"

text \<open>The principal form of discriminant \<open>-23\<close> and the form \<open>(2, 1, 3)\<close> of order 3.\<close>

definition g23 :: form where
  "g23 = \<lparr>form_a = 1, form_b = 1, form_c = 6\<rparr>"

definition pi23 :: form where
  "pi23 = \<lparr>form_a = 2, form_b = 1, form_c = 3\<rparr>"

text \<open>
  Two final-proof blobs for \<open>T = 1\<close>, recursion level 0 and the proof form \<open>(2, 1, 3)\<close>
  that differ in the byte of \<open>l\<close> only (3 and 5), a blob cut after 14 bytes, and the proof
  structure around a buffer.
\<close>

definition blob23_l3 :: "byte list" where
  "blob23_l3 = [2, 0, 0, 0, 0, 0, 0, 0, 0, 1, 1, 3, 0, 1, 2, 0, 1, 1, 0, 1, 3]"

definition blob23_l5 :: "byte list" where
  "blob23_l5 = [2, 0, 0, 0, 0, 0, 0, 0, 0, 1, 1, 5, 0, 1, 2, 0, 1, 1, 0, 1, 3]"

definition proof_of_bytes :: "byte list \<Rightarrow> cpu_vdf_proof_t" where
  "proof_of_bytes bs =
     \<lparr>proof_data = Some bs, proof_length = length bs, proof_iterations = 1, is_valid = True,
      proof_recursion_level = 0\<rparr>"

definition truncated_proof :: cpu_vdf_proof_t where
  "truncated_proof =
     \<lparr>proof_data = Some [2, 0, 0, 0, 0, 0, 0, 0, 0, 1, 1, 3, 0, 1], proof_length = 14,
      proof_iterations = 1, is_valid = True, proof_recursion_level = 0\<rparr>"

text \<open>
  A configuration with a checkpoint every 2 iterations, the challenge \<open>01 02 .. 20\<close>, and
  the contexts that the two start functions leave for 4 iterations on a fresh context.
\<close>

definition cfg2 :: cpu_vdf_config_t where
  "cfg2 = \<lparr>num_threads = 4, proof_threads = 2, enable_fast_mode = True, enable_avx512 = False,
           enable_logging = False, segment_size = 2\<rparr>"

definition challenge32 :: "byte list" where
  "challenge32 = map of_nat [1..<33]"

definition started_by_challenge :: cpu_vdf_context where
  "started_by_challenge =
     \<lparr>ctx_config = cfg2, ctx_state = CPU_VDF_STATE_IDLE, ctx_current_iteration = 0,
      ctx_target_iterations = 4, ctx_discriminant = - 7, ctx_initial_form = g7,
      ctx_current_form = g7, ctx_final_form = default_form,
      ctx_should_stop = False, ctx_start_time = 0, ctx_update_interval_ms = 1000,
      ctx_iterations_per_second = 0, ctx_last_update_time = 0,
      ctx_checkpoint_proofs = [], ctx_checkpoint_interval = 0,
      ctx_store_checkpoints = True, ctx_generate_streaming_proofs = True\<rparr>"

definition started_by_discriminant :: cpu_vdf_context where
  "started_by_discriminant = started_by_challenge\<lparr>ctx_generate_streaming_proofs := False\<rparr>"

text \<open>The context that the worker leaves for \<open>started_by_discriminant\<close> when it is not stopped.\<close>

definition completed_by_discriminant :: cpu_vdf_context where
  "completed_by_discriminant =
     started_by_discriminant
       \<lparr>ctx_state := CPU_VDF_STATE_COMPLETED, ctx_current_iteration := 4, ctx_final_form := g7,
        ctx_checkpoint_interval := 2,
        ctx_checkpoint_proofs :=
          [new_CheckpointProof\<lparr>cp_iteration := 2, cp_checkpoint_form := g7\<rparr>,
           new_CheckpointProof\<lparr>cp_iteration := 4, cp_checkpoint_form := g7\<rparr>]\<rparr>"

subsection \<open>The discriminant adjustment as the specification words it\<close>

text \<open>
  Section 4.E: the imported magnitude is negated; a value not congruent to 1 modulo 4 has
  its remainder subtracted and 1 added, and is stepped down by 4 if that made it
  non-negative.
\<close>

definition spec_discriminant :: "int \<Rightarrow> int" where
  "spec_discriminant magnitude =
     (let d = - magnitude in
      if d mod 4 = 1 then d
      else (let adjusted = d - d mod 4 + 1 in if 0 \<le> adjusted then adjusted - 4 else adjusted))"

subsection \<open>The checkpoint list of a streaming run\<close>






text \<open>
  The segment proof that the worker produces on the concrete inputs, for the segment of 2
  iterations from \<open>g7\<close> to \<open>g7\<close>, stored at iteration \<open>t\<close>, and the context that the worker
  leaves for \<open>started_by_challenge\<close> when it is not stopped.
\<close>

definition segment_prime7 :: int where
  "segment_prime7 =
     (let s = set_bit 263 (mpz_import (sha256 (challenge_data (- 7) g7 g7 2)))
      in if even s then s + 1 else s)"

definition segment_checkpoint7 :: "64 word \<Rightarrow> CheckpointProof" where
  "segment_checkpoint7 t =
     \<lparr>cp_iteration = t, cp_checkpoint_form = g7, cp_proof_form = g7,
      cp_challenge_prime = segment_prime7,
      cp_serialized_proof =
        [3] @ be64 2 @ add_form g7 @ add_form g7
          @ [of_nat (length (mpz_export segment_prime7) mod 256)] @ mpz_export segment_prime7\<rparr>"

definition completed_by_challenge :: cpu_vdf_context where
  "completed_by_challenge =
     started_by_challenge
       \<lparr>ctx_state := CPU_VDF_STATE_COMPLETED, ctx_current_iteration := 4, ctx_final_form := g7,
        ctx_checkpoint_interval := 2,
        ctx_checkpoint_proofs :=
          [new_CheckpointProof\<lparr>cp_iteration := 0, cp_checkpoint_form := g7,
                                cp_serialized_proof := [4]\<rparr>,
           segment_checkpoint7 2, segment_checkpoint7 4]\<rparr>"

subsection \<open>The iterations of the stored checkpoints\<close>

text \<open>
  The iteration numbers of the checkpoints of a context, in the order of the list, as naturals.
\<close>

definition checkpoint_iterations :: "cpu_vdf_context \<Rightarrow> nat list" where
  "checkpoint_iterations c = map (\<lambda>cp. unat (cp_iteration cp)) (ctx_checkpoint_proofs c)"

text \<open>
  The invariant of the worker for the order of the checkpoints: for a context with target \<open>T\<close>
  and streaming flag \<open>G\<close> whose worker has reached iteration \<open>p\<close>, the stored iterations are
  strictly increasing and at most \<open>p\<close>, begin with 0 when streaming proofs are generated, and
  end with \<open>p\<close> once \<open>p\<close> is the target. \<open>ordered_post\<close> asks it of a result of the loops that was
  not stopped, and \<open>stopped_result\<close> holds of a result that was stopped or threw.
\<close>

definition ordered_inv :: "bool \<Rightarrow> 64 word \<Rightarrow> nat \<Rightarrow> worker \<Rightarrow> bool" where
  "ordered_inv G T p w =
     (ctx_target_iterations (w_ctx w) = T \<and> ctx_store_checkpoints (w_ctx w)
      \<and> 0 < ctx_checkpoint_interval (w_ctx w) \<and> \<not> ctx_should_stop (w_ctx w)
      \<and> sorted_wrt (<) (checkpoint_iterations (w_ctx w))
      \<and> (\<forall>t \<in> set (checkpoint_iterations (w_ctx w)). t \<le> p)
      \<and> ctx_generate_streaming_proofs (w_ctx w) = G
      \<and> (G \<longrightarrow>
            checkpoint_iterations (w_ctx w) \<noteq> [] \<and> hd (checkpoint_iterations (w_ctx w)) = 0)
      \<and> (p = unat T \<longrightarrow>
            checkpoint_iterations (w_ctx w) \<noteq> [] \<and> last (checkpoint_iterations (w_ctx w)) = p))"

definition ordered_post :: "bool \<Rightarrow> 64 word \<Rightarrow> nat \<Rightarrow> worker_result \<Rightarrow> bool" where
  "ordered_post G T p r =
     (case r of Running w \<Rightarrow> \<not> ctx_should_stop (w_ctx w) \<longrightarrow> ordered_inv G T p w
      | Thrown w \<Rightarrow> True)"

definition stopped_result :: "worker_result \<Rightarrow> bool" where
  "stopped_result r = (case r of Running w \<Rightarrow> ctx_should_stop (w_ctx w) | Thrown w \<Rightarrow> True)"

section \<open>Lemmas\<close>

subsection \<open>Bytes and integers\<close>

lemma w255_mask: "(255::64 word) = mask 8"
  by (simp add: mask_eq_exp_minus_1)

lemma be64_byte_piece:
  "push_bit (k * 8) (ucast (ucast (drop_bit (k * 8) t AND (255::64 word)) :: byte) :: 64 word)
     OR take_bit (k * 8) t = take_bit (Suc k * 8) t"
  by (rule bit_word_eqI) (auto simp add: bit_simps w255_mask)

lemma read_be64_fold:
  "foldl (\<lambda>acc b. push_bit 8 acc OR ucast b) acc
      (map (\<lambda>i. ucast (drop_bit (i * 8) t AND 255) :: byte) (rev [0..<k]))
    = push_bit (k * 8) acc OR take_bit (k * 8) (t :: 64 word)"
proof (induction k arbitrary: acc)
  case 0
  then show ?case by simp
next
  case (Suc k)
  have "push_bit (k * 8) (push_bit 8 acc OR ucast (ucast (drop_bit (k * 8) t AND 255) :: byte))
          OR take_bit (k * 8) t
        = push_bit (Suc k * 8) acc OR
          (push_bit (k * 8) (ucast (ucast (drop_bit (k * 8) t AND (255::64 word)) :: byte) :: 64 word)
             OR take_bit (k * 8) t)"
    by (simp add: push_bit_or push_bit_add ac_simps)
  then show ?case
    using Suc.IH by (simp add: be64_byte_piece)
qed

lemma read_be64_be64 [simp]: "read_be64 (be64 t) = t"
  unfolding read_be64_def be64_def
  by (simp only: read_be64_fold) (simp add: take_bit_word_eq_self)

lemma length_be64 [simp]: "length (be64 t) = 8"
  by (simp add: be64_def)

lemma be64_1: "be64 1 = [0, 0, 0, 0, 0, 0, 0, 1]"
  by (simp add: be64_def upt_rec)

lemma read_be64_1: "read_be64 [0, 0, 0, 0, 0, 0, 0, 1] = 1"
  by (simp add: read_be64_def)

lemma mpz_import_Nil [simp]: "mpz_import [] = 0"
  by (simp add: mpz_import_def)

lemma mpz_import_single [simp]: "mpz_import [x] = uint x"
  by (simp add: mpz_import_def)

lemma mpz_import_snoc: "mpz_import (bs @ [x]) = mpz_import bs * 256 + uint x"
  by (simp add: mpz_import_def)

lemma mpz_import_nonneg: "0 \<le> mpz_import bs"
proof -
  have "0 \<le> acc \<Longrightarrow> 0 \<le> foldl (\<lambda>acc b. acc * 256 + uint b) acc bs" for acc
    by (induction bs arbitrary: acc) simp_all
  then show ?thesis by (simp add: mpz_import_def)
qed

lemma mpz_import_bound: "mpz_import bs < 256 ^ length bs"
proof (induction bs rule: rev_induct)
  case Nil
  then show ?case by (simp add: mpz_import_def)
next
  case (snoc x xs)
  have "uint x < 256" using uint_bounded[of x] by simp
  with snoc have "mpz_import xs * 256 + uint x < 256 ^ length xs * 256"
    by linarith
  then show ?case by (simp add: mpz_import_snoc)
qed

lemma mpz_import_be_bytes: "mpz_import (be_bytes n) = int n"
proof (induction n rule: be_bytes.induct)
  case (1 n)
  show ?case
  proof (cases "n = 0")
    case True
    then show ?thesis by (simp add: be_bytes.simps mpz_import_def)
  next
    case False
    have "uint (of_nat (n mod 256) :: byte) = int (n mod 256)"
      by (simp add: uint_word_of_int take_bit_eq_mod uint_nat unat_of_nat)
    moreover have "int (n div 256) * 256 + int (n mod 256) = int n"
      by (simp add: zdiv_int zmod_int)
    ultimately show ?thesis
      using 1 False by (subst be_bytes.simps) (simp add: mpz_import_snoc)
  qed
qed

lemma mpz_import_mpz_export [simp]: "mpz_import (mpz_export z) = \<bar>z\<bar>"
  by (simp add: mpz_export_def mpz_import_be_bytes)

lemma be_bytes_0 [simp]: "be_bytes 0 = []"
  by (simp add: be_bytes.simps)

lemma be_bytes_byte: "0 < n \<Longrightarrow> n < 256 \<Longrightarrow> be_bytes n = [of_nat n]"
  by (subst be_bytes.simps) simp

lemma length_be_bytes_bound: "n < 256 ^ k \<Longrightarrow> length (be_bytes n) \<le> k"
proof (induction n arbitrary: k rule: be_bytes.induct)
  case (1 n)
  show ?case
  proof (cases "n = 0")
    case True
    then show ?thesis by simp
  next
    case False
    with "1.prems" obtain k' where k: "k = Suc k'"
      by (cases k) auto
    with "1.prems" have "n div 256 < 256 ^ k'"
      by (simp add: less_mult_imp_div_less mult.commute)
    from "1.IH"[OF False this] k False show ?thesis
      by (subst be_bytes.simps) simp
  qed
qed

lemma mpz_export_small: "mpz_export 1 = [1]" "mpz_export 3 = [3]" "mpz_export 5 = [5]" "mpz_export 2 = [2]"
  by (simp_all add: mpz_export_def be_bytes_byte)

lemma mpz_export_neg1: "mpz_export (- 1) = [1]"
  by (simp add: mpz_export_def be_bytes_byte)

text \<open>The export of \<open>256 ^ n\<close> is a byte 1 followed by \<open>n\<close> zero bytes.\<close>

lemma be_bytes_256_power: "be_bytes (256 ^ n) = 1 # replicate n 0"
proof (induction n)
  case 0
  show ?case by (simp add: be_bytes_byte)
next
  case (Suc n)
  have "be_bytes (256 ^ Suc n) = be_bytes (256 ^ n) @ [0]"
    by (subst be_bytes.simps) simp
  then show ?case
    using Suc by (simp add: replicate_append_same)
qed

lemma mpz_export_256_power: "mpz_export (256 ^ n) = 1 # replicate n 0"
  by (simp add: mpz_export_def be_bytes_256_power nat_power_eq)

lemma length_mpz_export_256_power: "length (mpz_export (256 ^ n)) = Suc n"
  by (simp add: mpz_export_256_power)

lemma length_export_big: "length (mpz_export (256 ^ 65535)) = 65536"
proof -
  have "Suc 65535 = (65536::nat)" by simp
  then show ?thesis by (simp only: length_mpz_export_256_power)
qed

subsection \<open>The challenge prime\<close>

lemma NextPrime_loop_ge:
  assumes "NextPrime_loop lib n = Some p"
  shows "n \<le> p"
proof (rule NextPrime_loop.raw_induct[where P = "\<lambda>_ n p. n \<le> p", OF _ assms])
  fix f :: "vdf_lib \<Rightarrow> int \<Rightarrow> int option" and lib n p
  assume IH: "\<And>lib n p. f lib n = Some p \<Longrightarrow> n \<le> p"
    and step: "(if mpz_probab_prime_p lib n 25 then Some n else f lib (n + 2)) = Some p"
  show "n \<le> p"
  proof (cases "mpz_probab_prime_p lib n 25")
    case True
    with step show ?thesis by simp
  next
    case False
    with step have "f lib (n + 2) = Some p" by simp
    from IH[OF this] show ?thesis by simp
  qed
qed

lemma set_bit_ge: "0 \<le> h \<Longrightarrow> (2::int) ^ n \<le> set_bit n h"
proof -
  assume h: "0 \<le> h"
  have "set_bit n h = push_bit n 1 OR h" by (simp add: set_bit_eq_or or.commute)
  also have "\<dots> \<ge> push_bit n 1"
    using h by (rule or_greater_eq)
  finally show ?thesis by (simp add: push_bit_eq_mult)
qed

lemma set_bit_263_bound:
  assumes "0 \<le> h" "h < 2 ^ 256"
  shows "set_bit 263 h < (2::int) ^ 264"
proof -
  have "h OR push_bit 263 1 < 2 ^ 264"
    by (rule OR_upper) (use assms in \<open>simp_all add: push_bit_eq_mult\<close>)
  then show ?thesis by (simp add: set_bit_eq_or)
qed

lemma length_sha256 [simp]: "length (sha256 d) = 32"
  by (simp add: sha256_def)

lemma fiat_shamir_prime_ge:
  assumes "fiat_shamir_prime lib d x y t = Some l"
  shows "2 ^ 263 \<le> l"
proof -
  define h where "h = mpz_import (sha256 (challenge_data d x y t))"
  have "(2::int) ^ 263 \<le> set_bit 263 h"
    by (rule set_bit_ge) (simp add: h_def mpz_import_nonneg)
  moreover have "set_bit 263 h \<le> (if even (set_bit 263 h) then set_bit 263 h + 1 else set_bit 263 h)"
    by simp
  moreover have "(if even (set_bit 263 h) then set_bit 263 h + 1 else set_bit 263 h) \<le> l"
    using assms unfolding fiat_shamir_prime_def NextPrime_def h_def[symmetric]
    by (rule NextPrime_loop_ge)
  ultimately show ?thesis by linarith
qed

lemma generator_principal:
  "generator principal_lib d = Some \<lparr>form_a = 1, form_b = 1, form_c = (1 - d) div 4\<rparr>"
  by (simp add: principal_lib_def)

lemma FastPow_principal: "FastPowFormNucomp principal_lib f d e L = Some f"
  by (simp add: principal_lib_def)

lemma NextPrime_principal:
  "NextPrime principal_lib s = Some (if even s then s + 1 else s)"
  unfolding NextPrime_def
  by (subst NextPrime_loop.simps) (simp add: principal_lib_def)

lemma fiat_shamir_principal:
  "\<exists>l. fiat_shamir_prime principal_lib d x y t = Some l \<and> 0 < l \<and> length (mpz_export l) < 256"
proof -
  define h where "h = mpz_import (sha256 (challenge_data d x y t))"
  define s where "s = set_bit 263 h"
  define l where "l = (if even s then s + 1 else s)"
  have h: "0 \<le> h" "h < 2 ^ 256"
    using mpz_import_bound[of "sha256 (challenge_data d x y t)"]
    by (simp_all add: h_def mpz_import_nonneg)
  have s: "2 ^ 263 \<le> s" "s < 2 ^ 264"
    using set_bit_ge[OF h(1), of 263] set_bit_263_bound[OF h] by (simp_all add: s_def)
  then have l: "0 < l" "l < 256 ^ 34"
    by (simp_all add: l_def)
  then have "nat \<bar>l\<bar> < 256 ^ 34" by simp
  from length_be_bytes_bound[OF this] have "length (mpz_export l) < 256"
    by (simp add: mpz_export_def)
  moreover have "fiat_shamir_prime principal_lib d x y t = Some l"
    by (simp add: fiat_shamir_prime_def NextPrime_principal l_def s_def h_def)
  ultimately show ?thesis using l(1) by blast
qed

subsection \<open>Serializing and parsing the final proof\<close>

lemma read_integer_add_integer:
  assumes "length (mpz_export v) < 65536"
  shows "read_integer (add_integer v @ rest) = Some (\<bar>v\<bar>, rest)"
proof -
  define n where "n = length (mpz_export v)"
  have n: "n < 65536" using assms by (simp add: n_def)
  have hi: "unat (of_nat ((n div 256) mod 256) :: byte) = n div 256"
    using n by (simp add: unat_of_nat)
  have lo: "unat (of_nat (n mod 256) :: byte) = n mod 256"
    by (simp add: unat_of_nat)
  show ?thesis
    unfolding read_integer_def add_integer_def Let_def
    by (simp add: hi lo flip: n_def)
qed

lemma parse_serialize:
  assumes "length (mpz_export l) < 256"
    and "length (mpz_export (form_a p)) < 65536"
    and "length (mpz_export (form_b p)) < 65536"
    and "length (mpz_export (form_c p)) < 65536"
  shows "parse_proof r t (serialize_proof r t l p @ rest)
           = Some (\<bar>l\<bar>, \<lparr>form_a = \<bar>form_a p\<bar>, form_b = \<bar>form_b p\<bar>, form_c = \<bar>form_c p\<bar>\<rparr>)"
proof -
  have lsz: "unat (of_nat (length (mpz_export l)) :: byte) = length (mpz_export l)"
    using assms(1) by (simp add: unat_of_nat)
  show ?thesis
    unfolding parse_proof_def serialize_proof_def
    by (simp add: lsz read_integer_add_integer assms)
qed

lemma parse_serialize_fit:
  assumes "lengths_fit l pf"
  shows "parse_proof r t (serialize_proof r t l pf @ rest) = Some (\<bar>l\<bar>, abs_form pf)"
  using assms parse_serialize[of l pf r t rest] by (simp add: lengths_fit_def abs_form_def)

lemma length_serialize_ge: "11 \<le> length (serialize_proof r t l pf)"
  by (simp add: serialize_proof_def)

lemma proof_bytes_exact:
  "proof_data p = Some bs \<Longrightarrow> proof_length p = length bs \<Longrightarrow> proof_bytes p = bs"
  by (simp add: proof_bytes_def)

lemma serialize_proof_layout: "proof_layout r t l pf (serialize_proof r t l pf)"
proof -
  have byte: "unat (of_nat (n mod 256) :: byte) = n mod 256" for n
    by (simp add: unat_of_nat)
  have "n mod (256 * 256) = 256 * (n div 256 mod 256) + n mod 256" for n :: nat
    by (rule mod_mult2_eq)
  then have pair: "unat (of_nat ((n div 256) mod 256) :: byte) * 256
      + unat (of_nat (n mod 256) :: byte) = n mod 65536" for n
    by (simp add: unat_of_nat)
  show ?thesis
    unfolding proof_layout_def serialize_proof_def add_integer_def Let_def
    apply (rule exI[of _ "of_nat (length (mpz_export l) mod 256)"])
    apply (rule exI[of _ "of_nat ((length (mpz_export (form_a pf)) div 256) mod 256)"])
    apply (rule exI[of _ "of_nat (length (mpz_export (form_a pf)) mod 256)"])
    apply (rule exI[of _ "of_nat ((length (mpz_export (form_b pf)) div 256) mod 256)"])
    apply (rule exI[of _ "of_nat (length (mpz_export (form_b pf)) mod 256)"])
    apply (rule exI[of _ "of_nat ((length (mpz_export (form_c pf)) div 256) mod 256)"])
    apply (rule exI[of _ "of_nat (length (mpz_export (form_c pf)) mod 256)"])
    apply (intro conjI)
        apply simp
       apply (rule byte)
      apply (rule pair)
     apply (rule pair)
    apply (rule pair)
    done
qed

lemma serialize23_l3: "serialize_proof 0 1 3 pi23 = blob23_l3"
  by (simp add: serialize_proof_def add_integer_def pi23_def mpz_export_small be64_1 blob23_l3_def)

lemma parse_blob23_l3: "parse_proof 0 1 blob23_l3 = Some (3, pi23)"
  by (simp add: parse_proof_def blob23_l3_def read_integer_def read_be64_1 pi23_def)

lemma parse_blob23_l5: "parse_proof 0 1 blob23_l5 = Some (5, pi23)"
  by (simp add: parse_proof_def blob23_l5_def read_integer_def read_be64_1 pi23_def)

lemma g23_sel: "form_a g23 = 1" "form_b g23 = 1" "form_c g23 = 6"
  by (simp_all add: g23_def)

lemma class23_pow3: "FastPowFormNucomp class23_lib pi23 (- 23) 3 2 = Some g23"
  by (simp add: class23_lib_def class23_index_def class23_form_def pi23_def g23_def)

lemma class23_pow5:
  "FastPowFormNucomp class23_lib pi23 (- 23) 5 2 = Some \<lparr>form_a = 2, form_b = - 1, form_c = 3\<rparr>"
  by (simp add: class23_lib_def class23_index_def class23_form_def pi23_def)

lemma class23_pow_g: "FastPowFormNucomp class23_lib g23 (- 23) e 2 = Some g23"
  by (simp add: class23_lib_def class23_index_def class23_form_def g23_def)

lemma class23_facts:
  "generator class23_lib (- 23) = Some g23"
  "check_valid class23_lib pi23 (- 23)"
  "square class23_lib g23 = Some g23"
  "integer_root class23_lib x n = 2"
  "compose class23_lib g23 g23 = Some g23"
  "compose class23_lib \<lparr>form_a = 2, form_b = - 1, form_c = 3\<rparr> g23
     = Some \<lparr>form_a = 2, form_b = - 1, form_c = 3\<rparr>"
  by (simp_all add: class23_lib_def class23_index_def class23_form_def pi23_def g23_def)

lemma square_loop_prime_test:
  "square_loop (lib\<lparr>mpz_probab_prime_p := q\<rparr>) n y = square_loop lib n y"
  by (induction n arbitrary: y) (simp_all split: option.splits)

lemma verify_trace_prime_test:
  "verify_trace (lib\<lparr>mpz_probab_prime_p := q\<rparr>) db ifb pr t rl = verify_trace lib db ifb pr t rl"
  by (simp add: verify_trace_def wesolowski_check_def square_loop_prime_test Let_def
        split: option.splits)

lemma add_integer_wraps_gen:
  "length (mpz_export v) = 65536 \<Longrightarrow> add_integer v = 0 # 0 # mpz_export v"
  by (simp add: add_integer_def)

lemma parse_short_c:
  "parse_proof 0 1 ([2, 0] @ be64 1 @ [1, 3, 0, 1, 1, 0, 1, 1, 0, 0] @ bs)
     = Some (3, \<lparr>form_a = 1, form_b = 1, form_c = 0\<rparr>)"
  by (simp add: parse_proof_def read_integer_def)

lemma parse_wrapped_length:
  assumes "length (mpz_export v) = 65536"
  shows "parse_proof 0 1 (serialize_proof 0 1 3 \<lparr>form_a = 1, form_b = 1, form_c = v\<rparr>)
     = Some (3, \<lparr>form_a = 1, form_b = 1, form_c = 0\<rparr>)"
proof -
  have "serialize_proof 0 1 3 \<lparr>form_a = 1, form_b = 1, form_c = v\<rparr>
          = [2, 0] @ be64 1 @ [1, 3, 0, 1, 1, 0, 1, 1, 0, 0] @ mpz_export v"
    by (simp add: serialize_proof_def add_integer_def Let_def assms mpz_export_small)
  then show ?thesis by (simp only: parse_short_c)
qed

text \<open>What a successful parse says about the buffer.\<close>

lemma read_integer_SomeD:
  assumes "read_integer b = Some (v, rest)"
  shows "\<exists>hi lo bs. b = hi # lo # bs @ rest \<and> length bs = unat hi * 256 + unat lo
           \<and> v = mpz_import bs"
proof -
  from assms have len: "2 \<le> length b"
    by (simp add: read_integer_def split: if_splits)
  then obtain hi lo b' where b: "b = hi # lo # b'"
    by (cases b; cases "tl b") auto
  define n where "n = unat hi * 256 + unat lo"
  from assms b have n: "n \<le> length b'" and v: "v = mpz_import (take n b')" and r: "rest = drop n b'"
    by (simp_all add: read_integer_def Let_def n_def split: if_splits)
  have "b = hi # lo # take n b' @ rest" using b r by simp
  moreover have "length (take n b') = unat hi * 256 + unat lo" using n by (simp add: n_def)
  ultimately show ?thesis using v by blast
qed

lemma be16_at_append: "be16_at (P @ hi # lo # Q) (length P) = unat hi * 256 + unat lo"
  by (simp add: be16_at_def nth_append)

lemma parse_proof_SomeD:
  assumes "parse_proof r t buf = Some (l, pf)"
  shows "\<exists>t8 lsz lb ah al ab bh bl bb ch cl cb rest.
           buf = 2 # r # t8 @ lsz # lb @ ah # al # ab @ bh # bl # bb @ ch # cl # cb @ rest
         \<and> length t8 = 8 \<and> read_be64 t8 = t \<and> length lb = unat lsz
         \<and> length ab = unat ah * 256 + unat al
         \<and> length bb = unat bh * 256 + unat bl
         \<and> length cb = unat ch * 256 + unat cl
         \<and> l = mpz_import lb
         \<and> pf = \<lparr>form_a = mpz_import ab, form_b = mpz_import bb, form_c = mpz_import cb\<rparr>"
proof -
  from assms obtain buf2 where buf: "buf = 2 # r # buf2"
    by (cases buf; cases "tl buf") (auto simp: parse_proof_def split: if_splits)
  from assms buf have len8: "8 \<le> length buf2" and t: "read_be64 (take 8 buf2) = t"
    by (simp_all add: parse_proof_def split: if_splits)
  from assms buf len8 t obtain lsz buf3 where d8: "drop 8 buf2 = lsz # buf3"
    by (cases "drop 8 buf2") (simp_all add: parse_proof_def)
  from assms buf len8 t d8 have lenl: "unat lsz \<le> length buf3"
    by (simp add: parse_proof_def split: if_splits)
  from assms buf len8 t d8 lenl obtain pa buf4 pb buf5 pc buf6 where
      ra: "read_integer (drop (unat lsz) buf3) = Some (pa, buf4)"
      and rb: "read_integer buf4 = Some (pb, buf5)"
      and rc: "read_integer buf5 = Some (pc, buf6)"
      and l: "l = mpz_import (take (unat lsz) buf3)"
      and pf: "pf = \<lparr>form_a = pa, form_b = pb, form_c = pc\<rparr>"
    by (auto simp add: parse_proof_def Let_def split: option.splits)
  from read_integer_SomeD[OF ra] obtain ah al ab where
      a: "drop (unat lsz) buf3 = ah # al # ab @ buf4" "length ab = unat ah * 256 + unat al" "pa = mpz_import ab"
    by blast
  from read_integer_SomeD[OF rb] obtain bh bl bb where
      b: "buf4 = bh # bl # bb @ buf5" "length bb = unat bh * 256 + unat bl" "pb = mpz_import bb"
    by blast
  from read_integer_SomeD[OF rc] obtain ch cl cb where
      c: "buf5 = ch # cl # cb @ buf6" "length cb = unat ch * 256 + unat cl" "pc = mpz_import cb"
    by blast
  have "buf2 = take 8 buf2 @ lsz # buf3"
    using d8 by (metis append_take_drop_id)
  moreover have "buf3 = take (unat lsz) buf3 @ ah # al # ab @ buf4"
    using a(1) by (metis append_take_drop_id)
  ultimately have "buf = 2 # r # take 8 buf2 @ lsz # take (unat lsz) buf3
                      @ ah # al # ab @ bh # bl # bb @ ch # cl # cb @ buf6"
    using buf b(1) c(1) by simp
  moreover have "length (take 8 buf2) = 8" using len8 by simp
  moreover have "length (take (unat lsz) buf3) = unat lsz" using lenl by simp
  ultimately show ?thesis
    using t l pf a(2,3) b(2,3) c(2,3) by blast
qed

lemma parse_proof_header:
  assumes "parse_proof r t buf = Some res"
  shows "take 1 buf = [2] \<and> take 1 (drop 1 buf) = [r] \<and> read_be64 (take 8 (drop 2 buf)) = t"
proof -
  obtain l pf where "res = (l, pf)" by (cases res)
  with assms have "parse_proof r t buf = Some (l, pf)" by simp
  from parse_proof_SomeD[OF this] obtain t8 rest where
    "buf = 2 # r # t8 @ rest" "length t8 = 8" "read_be64 t8 = t"
    by (elim exE conjE) (rule that; assumption)
  then show ?thesis by simp
qed

lemma parse_proof_Some_not_truncated:
  assumes "parse_proof r t buf = Some res"
  shows "\<not> blob_truncated buf"
proof -
  obtain l pf where "res = (l, pf)" by (cases res)
  with assms have "parse_proof r t buf = Some (l, pf)" by simp
  from parse_proof_SomeD[OF this] obtain t8 lsz lb ah al ab bh bl bb ch cl cb rest where
    buf: "buf = 2 # r # t8 @ lsz # lb @ ah # al # ab @ bh # bl # bb @ ch # cl # cb @ rest"
    and len: "length t8 = 8" "length lb = unat lsz" "length ab = unat ah * 256 + unat al"
       "length bb = unat bh * 256 + unat bl" "length cb = unat ch * 256 + unat cl"
    by (elim exE conjE) (rule that; assumption)
  define P1 where "P1 = 2 # r # t8 @ lsz # lb"
  define P2 where "P2 = P1 @ ah # al # ab"
  define P3 where "P3 = P2 @ bh # bl # bb"
  have s1: "buf = P1 @ ah # al # (ab @ bh # bl # bb @ ch # cl # cb @ rest)"
    and s2: "buf = P2 @ bh # bl # (bb @ ch # cl # cb @ rest)"
    and s3: "buf = P3 @ ch # cl # (cb @ rest)"
    by (simp_all add: buf P1_def P2_def P3_def)
  have n10: "buf ! 10 = lsz"
  proof -
    have "buf = (2 # r # t8) @ lsz # (lb @ ah # al # ab @ bh # bl # bb @ ch # cl # cb @ rest)"
      by (simp add: buf)
    moreover have "length (2 # r # t8) = 10" using len by simp
    ultimately show ?thesis by (metis nth_append_length)
  qed
  have l1: "length P1 = 11 + unat lsz" using len by (simp add: P1_def)
  have a16: "be16_at buf (length P1) = length ab"
    by (subst s1) (simp only: be16_at_append len)
  have l2: "length P2 = length P1 + 2 + length ab" by (simp add: P2_def)
  have b16: "be16_at buf (length P2) = length bb"
    by (subst s2) (simp only: be16_at_append len)
  have l3: "length P3 = length P2 + 2 + length bb" by (simp add: P3_def)
  have c16: "be16_at buf (length P3) = length cb"
    by (subst s3) (simp only: be16_at_append len)
  have total: "length buf = length P3 + 2 + length cb + length rest"
    by (subst s3) simp
  have offs: "11 + unat (buf ! 10) = length P1"
    "length P1 + 2 + be16_at buf (length P1) = length P2"
    "length P2 + 2 + be16_at buf (length P2) = length P3"
    using n10 l1 l2 l3 a16 b16 by simp_all
  show ?thesis
    unfolding blob_truncated_def Let_def offs c16
    using total l1 l2 l3 by simp
qed

lemma verify_rejects_header:
  assumes "take 1 (proof_bytes q) \<noteq> [2] \<or> take 1 (drop 1 (proof_bytes q)) \<noteq> [rl]
           \<or> read_be64 (take 8 (drop 2 (proof_bytes q))) \<noteq> t"
  shows "cpu_vdf_verify_proof lib db ifb (Some q) t rl = Some False"
proof -
  have "parse_proof rl t (proof_bytes q) = None"
  proof (cases "parse_proof rl t (proof_bytes q)")
    case None
    then show ?thesis .
  next
    case (Some res)
    from parse_proof_header[OF this] assms show ?thesis by simp
  qed
  then show ?thesis
    by (simp add: cpu_vdf_verify_proof_def verify_trace_def split: option.splits)
qed

subsection \<open>The start functions and a run on the concrete inputs\<close>

lemma start_challenge_bytes:
  "cpu_vdf_start_computation principal_lib True (cpu_vdf_create (Some cfg2)) (Some challenge32) ifb 4 64
     = Some (CPU_VDF_SUCCESS, Some started_by_challenge)"
  by (simp add: cpu_vdf_start_computation_def cpu_vdf_create_def principal_lib_def
        started_by_challenge_def cfg2_def g7_def)

lemma start_discriminant_bytes:
  "cpu_vdf_start_computation_with_discriminant principal_lib True (cpu_vdf_create (Some cfg2))
       (Some [7]) ifb 4
     = (CPU_VDF_SUCCESS, Some started_by_discriminant)"
  by (simp add: cpu_vdf_start_computation_with_discriminant_def start_with_discriminant_checked_def
        import_discriminant_def cpu_vdf_create_def principal_lib_def
        started_by_discriminant_def started_by_challenge_def cfg2_def g7_def)

lemma run_by_discriminant:
  "vdf_computation_thread principal_lib None 0 started_by_discriminant = Some completed_by_discriminant"
  by (simp add: vdf_computation_thread_def init_checkpoints_def started_by_discriminant_def
      started_by_challenge_def cfg2_def computation_loop.simps batch_loop.simps
      should_stop_load_def record_checkpoint_def principal_lib_def completed_by_discriminant_def)

lemma import_discriminant_spec: "import_discriminant bs = spec_discriminant (mpz_import bs)"
proof -
  define m where "m = mpz_import bs"
  have "0 \<le> m" by (simp add: m_def mpz_import_nonneg)
  have "(- m - (- m) mod 4 + 1) \<noteq> 0"
    by presburger
  then show ?thesis
    unfolding import_discriminant_def spec_discriminant_def Let_def m_def[symmetric]
    by auto
qed

lemma import_discriminant_valid:
  "import_discriminant bs < 0 \<and> import_discriminant bs mod 4 = 1"
proof -
  define m where "m = mpz_import bs"
  have m: "0 \<le> m" by (simp add: m_def mpz_import_nonneg)
  show ?thesis
    unfolding import_discriminant_def Let_def m_def[symmetric]
    using m by (auto; presburger)
qed

lemma generate_checkpoint_principal:
  "generate_checkpoint_proof principal_lib g7 g7 2 (- 7) = Some (Value (segment_checkpoint7 2))"
  by (simp add: generate_checkpoint_proof_def fiat_shamir_prime_def NextPrime_principal
        FastPow_principal segment_checkpoint7_def segment_prime7_def Let_def)

lemma run_by_challenge:
  "vdf_computation_thread principal_lib None 0 started_by_challenge = Some completed_by_challenge"
proof -
  have sq: "square principal_lib f = Some f" for f
    by (simp add: principal_lib_def)
  show ?thesis
    by (simp add: vdf_computation_thread_def init_checkpoints_def
      started_by_challenge_def cfg2_def computation_loop.simps batch_loop.simps
      should_stop_load_def record_checkpoint_def sq generate_checkpoint_principal
      completed_by_challenge_def segment_checkpoint7_def)
qed



subsection \<open>The worker with streaming proofs\<close>









subsection \<open>The order of the checkpoints\<close>

lemma ordered_inv_load:
  assumes "ordered_inv G T p w" and "should_stop_load stop_after w = (False, w1)"
  shows "ordered_inv G T p w1"
  using assms
  by (auto simp: ordered_inv_def should_stop_load_def Let_def checkpoint_iterations_def)

lemma load_stop:
  assumes "should_stop_load stop_after w = (True, w1)"
  shows "ctx_should_stop (w_ctx w1)"
  using assms by (auto simp: should_stop_load_def Let_def)

lemma ordered_inv_square:
  "ordered_inv G T p w \<Longrightarrow>
   ordered_inv G T p (w\<lparr>w_current := f, w_ctx := (w_ctx w)\<lparr>ctx_current_iteration := t\<rparr>\<rparr>)"
  by (simp add: ordered_inv_def checkpoint_iterations_def)

lemma ordered_inv_push:
  assumes inv: "ordered_inv G T p w" and t: "unat t = Suc p"
    and w': "w_ctx w' = (w_ctx w)\<lparr>ctx_checkpoint_proofs := ctx_checkpoint_proofs (w_ctx w) @ [cp]\<rparr>"
    and cp: "cp_iteration cp = t"
  shows "ordered_inv G T (Suc p) w'"
proof -
  let ?its = "checkpoint_iterations (w_ctx w)"
  have its': "checkpoint_iterations (w_ctx w') = ?its @ [Suc p]"
    by (simp add: checkpoint_iterations_def w' cp t)
  have frame: "ctx_target_iterations (w_ctx w') = ctx_target_iterations (w_ctx w)"
    "ctx_store_checkpoints (w_ctx w') = ctx_store_checkpoints (w_ctx w)"
    "ctx_checkpoint_interval (w_ctx w') = ctx_checkpoint_interval (w_ctx w)"
    "ctx_should_stop (w_ctx w') = ctx_should_stop (w_ctx w)"
    "ctx_generate_streaming_proofs (w_ctx w') = ctx_generate_streaming_proofs (w_ctx w)"
    by (simp_all add: w')
  from inv have s: "sorted_wrt (<) ?its" and b: "\<forall>x \<in> set ?its. x \<le> p"
    and h: "G \<longrightarrow> ?its \<noteq> [] \<and> hd ?its = 0"
    and rest: "ctx_target_iterations (w_ctx w) = T" "ctx_store_checkpoints (w_ctx w)"
      "0 < ctx_checkpoint_interval (w_ctx w)" "\<not> ctx_should_stop (w_ctx w)"
      "ctx_generate_streaming_proofs (w_ctx w) = G"
    by (simp_all add: ordered_inv_def)
  have 1: "sorted_wrt (<) (?its @ [Suc p])"
    using s b by (auto simp: sorted_wrt_append)
  have 2: "\<forall>x \<in> set (?its @ [Suc p]). x \<le> Suc p"
    using b by auto
  have 3: "G \<longrightarrow> hd (?its @ [Suc p]) = 0"
    using h by auto
  show ?thesis
    unfolding ordered_inv_def its' frame
    using 1 2 3 rest by simp
qed

lemma ordered_inv_record:
  assumes inv: "ordered_inv G T p w" and t: "unat t = Suc p"
    and rc: "record_checkpoint lib w t = Some (Running w2)"
  shows "ordered_inv G T (Suc p) w2"
proof -
  let ?c = "w_ctx w"
  from inv have en: "ctx_store_checkpoints ?c" "0 < ctx_checkpoint_interval ?c"
    and T: "ctx_target_iterations ?c = T"
    by (simp_all add: ordered_inv_def)
  show ?thesis
  proof (cases "t mod ctx_checkpoint_interval ?c = 0 \<or> t = T")
    case False
    with rc en T have w2: "w2 = w" by (simp add: record_checkpoint_def Let_def)
    from False t have "Suc p \<noteq> unat T" using word_unat_eq_iff[of t T] by auto
    with inv show ?thesis
      by (auto simp: ordered_inv_def w2 le_Suc_eq)
  next
    case True
    show ?thesis
    proof (cases "ctx_generate_streaming_proofs ?c")
      case False
      with rc en T True have "w_ctx w2 = ?c\<lparr>ctx_checkpoint_proofs := ctx_checkpoint_proofs ?c
                       @ [new_CheckpointProof\<lparr>cp_iteration := t,
                                               cp_checkpoint_form := w_current w\<rparr>]\<rparr>"
        by (auto simp: record_checkpoint_def Let_def)
      from ordered_inv_push[OF inv t this] show ?thesis by simp
    next
      case gs: True
      with rc en T True obtain cp where "w_ctx w2 = ?c\<lparr>ctx_checkpoint_proofs :=
           ctx_checkpoint_proofs ?c @ [cp\<lparr>cp_iteration := t\<rparr>]\<rparr>"
        by (auto simp: record_checkpoint_def Let_def split: option.splits result.splits)
      from ordered_inv_push[OF inv t this] show ?thesis by simp
    qed
  qed
qed

lemma unat_plus_no_wrap:
  fixes a b :: "64 word"
  assumes "unat a + unat b < 2 ^ 64"
  shows "unat (a + b) = unat a + unat b"
  using assms unat_add_lem[of a b] by simp

lemma unat_next_iteration:
  fixes completed i n T :: "64 word"
  assumes "i < n" and "unat completed + unat n \<le> unat T"
  shows "unat (completed + i + 1) = Suc (unat completed + unat i)"
    and "unat (i + 1) = Suc (unat i)" and "i + 1 \<le> n"
proof -
  have T: "unat T < 2 ^ 64" using unsigned_less[of T, where ?'a = nat] by simp
  have lt: "unat i < unat n" using assms(1) by (simp add: word_less_nat_alt)
  with assms(2) T have b: "unat completed + unat i + 1 < 2 ^ 64" by linarith
  then have ci: "unat (completed + i) = unat completed + unat i"
    by (intro unat_plus_no_wrap) simp
  have "unat (completed + i + 1) = unat (completed + i) + unat (1::64 word)"
    by (rule unat_plus_no_wrap) (use b ci in simp)
  then show "unat (completed + i + 1) = Suc (unat completed + unat i)"
    by (simp add: ci)
  have "unat (i + 1) = unat i + unat (1::64 word)"
    by (rule unat_plus_no_wrap) (use b in simp)
  then show "unat (i + 1) = Suc (unat i)" by simp
  show "i + 1 \<le> n" using assms(1) by (rule inc_le)
qed

lemma ordered_batch_loop:
  assumes "batch_loop lib stop_after completed n i w = Some r"
  shows "ordered_inv G T (unat completed + unat i) w \<and> i \<le> n \<and> unat completed + unat n \<le> unat T
         \<longrightarrow> ordered_post G T (unat completed + unat n) r"
proof (rule batch_loop.raw_induct[where P = "\<lambda>lib stop_after completed n i w r.
          ordered_inv G T (unat completed + unat i) w \<and> i \<le> n \<and> unat completed + unat n \<le> unat T
          \<longrightarrow> ordered_post G T (unat completed + unat n) r", OF _ assms])
  fix f :: "vdf_lib \<Rightarrow> nat option \<Rightarrow> 64 word \<Rightarrow> 64 word \<Rightarrow> 64 word \<Rightarrow> worker \<Rightarrow> worker_result option"
    and lib stop_after completed n i w r
  assume IH: "\<And>lib stop_after completed n i w r. f lib stop_after completed n i w = Some r
                \<Longrightarrow> ordered_inv G T (unat completed + unat i) w \<and> i \<le> n
                      \<and> unat completed + unat n \<le> unat T
                    \<longrightarrow> ordered_post G T (unat completed + unat n) r"
    and step: "(if i < n then
        (case should_stop_load stop_after w of (stop, w1) \<Rightarrow>
           if stop then Some (Running w1) else
            (case square lib (w_current w1) of
               None \<Rightarrow> Some (Thrown w1)
             | Some g \<Rightarrow>
                (case record_checkpoint lib
                        (w1\<lparr>w_current := g,
                            w_ctx := (w_ctx w1)\<lparr>ctx_current_iteration := completed + i + 1\<rparr>\<rparr>)
                        (completed + i + 1) of
                   None \<Rightarrow> None
                 | Some (Thrown w2) \<Rightarrow> Some (Thrown w2)
                 | Some (Running w2) \<Rightarrow> f lib stop_after completed n (i + 1) w2)))
      else Some (Running w)) = Some r"
  show "ordered_inv G T (unat completed + unat i) w \<and> i \<le> n \<and> unat completed + unat n \<le> unat T
        \<longrightarrow> ordered_post G T (unat completed + unat n) r"
  proof
    assume pre: "ordered_inv G T (unat completed + unat i) w \<and> i \<le> n
                 \<and> unat completed + unat n \<le> unat T"
    then have inv: "ordered_inv G T (unat completed + unat i) w" and le: "i \<le> n"
      and bound: "unat completed + unat n \<le> unat T" by simp_all
    show "ordered_post G T (unat completed + unat n) r"
    proof (cases "i < n")
      case False
      with le have "i = n" by simp
      with step inv show ?thesis by (auto simp: ordered_post_def)
    next
      case lt: True
      obtain stop w1 where l: "should_stop_load stop_after w = (stop, w1)"
        by (cases "should_stop_load stop_after w")
      show ?thesis
      proof (cases stop)
        case True
        with step lt l have "r = Running w1" by simp
        moreover have "ctx_should_stop (w_ctx w1)" using l True by (simp add: load_stop)
        ultimately show ?thesis by (simp add: ordered_post_def)
      next
        case ns: False
        with l inv have inv1: "ordered_inv G T (unat completed + unat i) w1"
          by (simp add: ordered_inv_load)
        show ?thesis
        proof (cases "square lib (w_current w1)")
          case None
          with step lt l ns show ?thesis by (auto simp: ordered_post_def)
        next
          case (Some g)
          let ?w = "w1\<lparr>w_current := g,
                        w_ctx := (w_ctx w1)\<lparr>ctx_current_iteration := completed + i + 1\<rparr>\<rparr>"
          have inv2: "ordered_inv G T (unat completed + unat i) ?w"
            using inv1 by (rule ordered_inv_square)
          note nx = unat_next_iteration[OF lt bound]
          from step lt l ns Some obtain r2 where
            rc: "record_checkpoint lib ?w (completed + i + 1) = Some r2"
            by (cases "record_checkpoint lib ?w (completed + i + 1)") auto
          show ?thesis
          proof (cases r2)
            case (Thrown w2)
            with step lt l ns Some rc show ?thesis by (auto simp: ordered_post_def)
          next
            case (Running w2)
            with rc have "record_checkpoint lib ?w (completed + i + 1) = Some (Running w2)"
              by simp
            from ordered_inv_record[OF inv2 nx(1) this]
            have inv3: "ordered_inv G T (unat completed + unat (i + 1)) w2"
              by (simp add: nx(2))
            from step lt l ns Some rc Running
            have "f lib stop_after completed n (i + 1) w2 = Some r" by simp
            from IH[OF this] inv3 nx(3) bound show ?thesis by simp
          qed
        qed
      qed
    qed
  qed
qed

lemma stopped_result_post: "stopped_result r \<Longrightarrow> ordered_post G T p r"
  by (auto simp: stopped_result_def ordered_post_def split: worker_result.splits)

lemma load_when_stopped:
  "ctx_should_stop (w_ctx w) \<Longrightarrow> should_stop_load stop_after w = (stop, w1)
     \<Longrightarrow> stop \<and> ctx_should_stop (w_ctx w1)"
  by (auto simp: should_stop_load_def Let_def)

lemma load_not_stopped:
  "should_stop_load stop_after w = (False, w1) \<Longrightarrow> \<not> ctx_should_stop (w_ctx w)"
  by (auto simp: should_stop_load_def Let_def)

lemma load_keeps_checkpoints:
  "should_stop_load stop_after w = (stop, w1)
     \<Longrightarrow> ctx_checkpoint_proofs (w_ctx w1) = ctx_checkpoint_proofs (w_ctx w)
         \<and> ctx_generate_streaming_proofs (w_ctx w1) = ctx_generate_streaming_proofs (w_ctx w)"
  by (auto simp: should_stop_load_def Let_def)

lemma unat_batch:
  fixes completed T :: "64 word"
  assumes "completed < T" and "unat T + 1000 < 2 ^ 64"
  defines "batch_end \<equiv> min (completed + 1000) T"
  shows "unat completed + unat (batch_end - completed) = unat batch_end"
    and "batch_end \<le> T"
proof -
  have lt: "unat completed < unat T" using assms(1) by (simp add: word_less_nat_alt)
  have "unat (completed + 1000) = unat completed + unat (1000 :: 64 word)"
    by (rule unat_plus_no_wrap) (use lt assms(2) in simp)
  then have c1000: "unat (completed + 1000) = unat completed + 1000" by simp
  then have "completed \<le> completed + 1000" by (simp add: word_le_nat_alt)
  moreover have "completed \<le> T" using assms(1) by simp
  ultimately have le: "completed \<le> batch_end" by (simp add: batch_end_def)
  then have "unat (batch_end - completed) = unat batch_end - unat completed"
    by (simp add: unat_sub)
  moreover have "unat completed \<le> unat batch_end" using le by (simp add: word_le_nat_alt)
  ultimately show "unat completed + unat (batch_end - completed) = unat batch_end" by simp
  show "batch_end \<le> T" by (simp add: batch_end_def)
qed

lemma ordered_computation_loop:
  assumes "computation_loop lib stop_after completed w = Some r"
  shows "(ctx_should_stop (w_ctx w) \<longrightarrow> stopped_result r)
       \<and> (ordered_inv G T (unat completed) w \<and> completed \<le> T \<and> unat T + 1000 < 2 ^ 64
            \<longrightarrow> ordered_post G T (unat T) r)"
proof (rule computation_loop.raw_induct[where P = "\<lambda>lib stop_after completed w r.
          (ctx_should_stop (w_ctx w) \<longrightarrow> stopped_result r)
       \<and> (ordered_inv G T (unat completed) w \<and> completed \<le> T \<and> unat T + 1000 < 2 ^ 64
            \<longrightarrow> ordered_post G T (unat T) r)", OF _ assms])
  fix f :: "vdf_lib \<Rightarrow> nat option \<Rightarrow> 64 word \<Rightarrow> worker \<Rightarrow> worker_result option"
    and lib stop_after completed w r
  assume IH: "\<And>lib stop_after completed w r. f lib stop_after completed w = Some r
                \<Longrightarrow> (ctx_should_stop (w_ctx w) \<longrightarrow> stopped_result r)
       \<and> (ordered_inv G T (unat completed) w \<and> completed \<le> T \<and> unat T + 1000 < 2 ^ 64
            \<longrightarrow> ordered_post G T (unat T) r)"
    and step: "(if completed < ctx_target_iterations (w_ctx w) then
        (case should_stop_load stop_after w of (stop, w1) \<Rightarrow>
           if stop then Some (Running w1) else
            (let batch_end = min (completed + 1000) (ctx_target_iterations (w_ctx w1));
                 iterations_in_batch = batch_end - completed
             in case batch_loop lib stop_after completed iterations_in_batch 0 w1 of
                  None \<Rightarrow> None
                | Some (Thrown w2) \<Rightarrow> Some (Thrown w2)
                | Some (Running w2) \<Rightarrow> f lib stop_after batch_end w2))
      else Some (Running w)) = Some r"
  obtain stop w1 where l: "should_stop_load stop_after w = (stop, w1)"
    by (cases "should_stop_load stop_after w")
  have sticky: "stopped_result r" if s: "ctx_should_stop (w_ctx w)"
  proof (cases "completed < ctx_target_iterations (w_ctx w)")
    case True
    with step l load_when_stopped[OF s l] show ?thesis
      by (auto simp: stopped_result_def)
  next
    case False
    with step s show ?thesis by (auto simp: stopped_result_def)
  qed
  have main: "ordered_post G T (unat T) r"
    if pre: "ordered_inv G T (unat completed) w \<and> completed \<le> T \<and> unat T + 1000 < 2 ^ 64"
  proof -
    from pre have inv: "ordered_inv G T (unat completed) w" and le: "completed \<le> T"
      and nw: "unat T + 1000 < 2 ^ 64" by simp_all
    from inv have tgt: "ctx_target_iterations (w_ctx w) = T" by (simp add: ordered_inv_def)
    show ?thesis
    proof (cases "completed < T")
      case False
      with le have "completed = T" by simp
      with step tgt inv show ?thesis by (auto simp: ordered_post_def)
    next
      case lt: True
      show ?thesis
      proof (cases stop)
        case True
        with step lt tgt l have "r = Running w1" by simp
        moreover have "ctx_should_stop (w_ctx w1)" using l True by (simp add: load_stop)
        ultimately show ?thesis by (simp add: ordered_post_def)
      next
        case ns: False
        with l inv have inv1: "ordered_inv G T (unat completed) w1"
          by (simp add: ordered_inv_load)
        then have tgt1: "ctx_target_iterations (w_ctx w1) = T" by (simp add: ordered_inv_def)
        define batch_end where "batch_end = min (completed + 1000) T"
        note ub = unat_batch[OF lt nw, folded batch_end_def]
        from step lt tgt l ns tgt1 obtain r2 where
          b: "batch_loop lib stop_after completed (batch_end - completed) 0 w1 = Some r2"
          by (cases "batch_loop lib stop_after completed (batch_end - completed) 0 w1")
             (auto simp: Let_def batch_end_def)
        from ordered_batch_loop[OF b, of G T] inv1 ub
        have post2: "ordered_post G T (unat batch_end) r2" by (simp add: word_le_nat_alt)
        show ?thesis
        proof (cases r2)
          case (Thrown w2)
          with step lt tgt l ns tgt1 b show ?thesis
            by (auto simp: Let_def batch_end_def ordered_post_def)
        next
          case (Running w2)
          with step lt tgt l ns tgt1 b have rec: "f lib stop_after batch_end w2 = Some r"
            by (simp add: Let_def batch_end_def)
          show ?thesis
          proof (cases "ctx_should_stop (w_ctx w2)")
            case True
            with IH[OF rec] show ?thesis by (simp add: stopped_result_post)
          next
            case False
            with post2 Running have "ordered_inv G T (unat batch_end) w2"
              by (simp add: ordered_post_def)
            with IH[OF rec] ub(2) nw show ?thesis by simp
          qed
        qed
      qed
    qed
  qed
  from sticky main
  show "(ctx_should_stop (w_ctx w) \<longrightarrow> stopped_result r)
       \<and> (ordered_inv G T (unat completed) w \<and> completed \<le> T \<and> unat T + 1000 < 2 ^ 64
            \<longrightarrow> ordered_post G T (unat T) r)"
    by blast
qed

lemma ucast_segment_size_pos:
  fixes s :: "32 word"
  assumes "0 < s"
  shows "0 < (ucast s :: 64 word)"
proof -
  have "unat s < 2 ^ 32" using unsigned_less[of s, where ?'a = nat] by simp
  then have "unat s < 2 ^ 64" by simp
  then have "unat (ucast s :: 64 word) = unat s"
    by (simp add: unsigned_ucast_eq take_bit_nat_eq_self)
  with assms show ?thesis by (simp add: word_less_nat_alt)
qed

lemma init_checkpoints_ordered:
  assumes "ctx_store_checkpoints c" "ctx_checkpoint_proofs c = []" "ctx_target_iterations c \<noteq> 0"
    "\<not> ctx_should_stop c"
  shows "ordered_inv (ctx_generate_streaming_proofs c) (ctx_target_iterations c) 0
           \<lparr>w_current = f, w_last_checkpoint = g, w_last_checkpoint_iter = 0,
            w_polls = 0, w_ctx = init_checkpoints c\<rparr>"
proof -
  have pos: "0 < ctx_target_iterations c" using assms(3) by (simp add: word_neq_0_conv)
  have iv: "0 < (if 0 < segment_size (ctx_config c) then ucast (segment_size (ctx_config c))
                 else (65536 :: 64 word))"
    by (auto simp: ucast_segment_size_pos)
  have nz: "unat (ctx_target_iterations c) \<noteq> 0" using assms(3) by (simp add: unat_eq_0)
  show ?thesis
    using assms pos iv nz
    by (simp add: ordered_inv_def init_checkpoints_def Let_def checkpoint_iterations_def
          new_CheckpointProof_def)
qed

lemma completed_run_ordered:
  assumes run: "vdf_computation_thread lib stop_after started_at ctx = Some ctx'"
    and fin: "ctx_state ctx' = CPU_VDF_STATE_COMPLETED"
    and st: "ctx_store_checkpoints ctx" and e: "ctx_checkpoint_proofs ctx = []"
    and nz: "ctx_target_iterations ctx \<noteq> 0"
    and nw: "unat (ctx_target_iterations ctx) + 1000 < 2 ^ 64"
  shows "sorted_wrt (<) (checkpoint_iterations ctx')
       \<and> checkpoint_iterations ctx' \<noteq> []
       \<and> last (checkpoint_iterations ctx') = unat (ctx_target_iterations ctx)
       \<and> (\<forall>t \<in> set (checkpoint_iterations ctx'). t \<le> unat (ctx_target_iterations ctx))
       \<and> (ctx_generate_streaming_proofs ctx \<longrightarrow> hd (checkpoint_iterations ctx') = 0)"
proof -
  define T where "T = ctx_target_iterations ctx"
  define c0 where "c0 = ctx\<lparr>ctx_state := CPU_VDF_STATE_COMPUTING, ctx_start_time := started_at,
                   ctx_last_update_time := started_at\<rparr>"
  define w0 where "w0 = \<lparr>w_current = ctx_initial_form c0, w_last_checkpoint = ctx_initial_form c0,
                w_last_checkpoint_iter = 0, w_polls = 0, w_ctx = init_checkpoints c0\<rparr>"
  have gs0: "ctx_generate_streaming_proofs (w_ctx w0) = ctx_generate_streaming_proofs ctx"
    and ss0: "ctx_should_stop (w_ctx w0) = ctx_should_stop ctx"
    by (simp_all add: w0_def c0_def init_checkpoints_def Let_def)
  from run obtain r where loop: "computation_loop lib stop_after 0 w0 = Some r"
    by (cases "computation_loop lib stop_after 0 w0")
       (auto simp: vdf_computation_thread_def Let_def c0_def w0_def)
  from run loop fin obtain w where r: "r = Running w"
    by (cases r) (auto simp: vdf_computation_thread_def Let_def c0_def w0_def)
  obtain stop w1 where l: "should_stop_load stop_after w = (stop, w1)"
    by (cases "should_stop_load stop_after w")
  from run loop r l fin have ns: "\<not> stop" and ctx': "ctx' = (w_ctx w1)\<lparr>ctx_final_form := w_current w1,
        ctx_current_form := w_current w1, ctx_state := CPU_VDF_STATE_COMPLETED\<rparr>"
    by (auto simp: vdf_computation_thread_def Let_def c0_def w0_def split: if_splits)
  from l ns have nsw: "\<not> ctx_should_stop (w_ctx w)" by (simp add: load_not_stopped)
  define G where "G = ctx_generate_streaming_proofs ctx"
  note ocl = ordered_computation_loop[OF loop, of G T]
  have ns0: "\<not> ctx_should_stop ctx"
  proof
    assume "ctx_should_stop ctx"
    with ocl ss0 have "stopped_result r" by simp
    with r nsw show False by (simp add: stopped_result_def)
  qed
  have inv0: "ordered_inv G T 0 w0"
    unfolding w0_def T_def G_def
    using init_checkpoints_ordered[of c0 "ctx_initial_form c0" "ctx_initial_form c0"] st e nz ns0
    by (simp add: c0_def)
  from ocl inv0 nw have "ordered_post G T (unat T) r" by (simp add: T_def)
  with r nsw have inv: "ordered_inv G T (unat T) w" by (simp add: ordered_post_def)
  have same: "checkpoint_iterations ctx' = checkpoint_iterations (w_ctx w)"
    using load_keeps_checkpoints[OF l] by (simp add: ctx' checkpoint_iterations_def)
  from inv same show ?thesis
    by (simp add: ordered_inv_def T_def G_def)
qed

lemma copy_checkpoints_eq:
  "copy_checkpoints s e m cps out =
     out @ take (m - length out)
             (map export_checkpoint
                (filter (\<lambda>cp. s \<le> cp_iteration cp \<and> cp_iteration cp \<le> e) cps))"
proof (induction cps arbitrary: out)
  case Nil
  then show ?case by simp
next
  case (Cons cp cps)
  show ?case
  proof (cases "s \<le> cp_iteration cp \<and> cp_iteration cp \<le> e")
    case False
    with Cons show ?thesis by auto
  next
    case inr: True
    show ?thesis
    proof (cases "m \<le> length out")
      case True
      with inr show ?thesis by simp
    next
      case False
      then obtain k where k: "m - length out = Suc k" by (cases "m - length out") auto
      then have "m - length (out @ [export_checkpoint cp]) = k" by simp
      with Cons[of "out @ [export_checkpoint cp]"] inr False k show ?thesis by simp
    qed
  qed
qed

lemma out_iteration_export [simp]: "out_iteration (export_checkpoint cp) = cp_iteration cp"
  by (simp add: export_checkpoint_def Let_def)

lemma sorted_iterations_word:
  "sorted_wrt (<) (checkpoint_iterations c) = sorted_wrt (<) (map cp_iteration (ctx_checkpoint_proofs c))"
  by (simp add: checkpoint_iterations_def sorted_wrt_map word_less_nat_alt)

lemma start_computation_flags:
  assumes "cpu_vdf_start_computation lib thread_ok (Some c) challenge_hash initial_form_bytes
             iterations bits = Some (CPU_VDF_SUCCESS, Some c1)"
    and "0 < segment_size (ctx_config c)"
  shows "ctx_store_checkpoints c1 \<and> ctx_generate_streaming_proofs c1
         \<and> ctx_checkpoint_proofs c1 = [] \<and> ctx_target_iterations c1 = iterations
         \<and> iterations \<noteq> 0"
  using assms
  by (auto simp: cpu_vdf_start_computation_def Let_def split: option.splits if_splits)

section \<open>The claims\<close>

subsection \<open>C1: the challenge that enters the verifier's equation\<close>

text \<open>
  C1 (as the code has it). \<^verbatim>\<open>cpu_vdf_verify_proof\<close> does not derive the challenge prime: the
  \<open>l\<close> that enters \<open>\<pi>^l * x^r = y\<close> is the integer stored in the \<open>l\<close> field of the blob. For
  every library, every integer \<open>l\<close> and every proof form whose byte counts fit their length
  fields, verifying the blob that serializes them takes these steps and no other: \<open>x\<close> is
  \<^verbatim>\<open>generator(D)\<close>; the form of the magnitudes of the stored coefficients is checked for
  validity; \<open>y\<close> is \<open>x\<close> squared \<open>T\<close> times; a stored \<open>l = 0\<close> is a division by zero; \<open>r\<close> is
  \<open>2^T mod |l|\<close>; \<^verbatim>\<open>FastPowFormNucomp\<close> is called on the stored form with the exponent \<open>|l|\<close>
  and on \<open>x\<close> with the exponent \<open>r\<close>; and the composition of the two powers is compared with
  \<open>y\<close>. Moreover, for every proof and every argument, the outcome of the verifier does not
  depend on the primality test of the library, the one library operation that
  \<^verbatim>\<open>NextPrime\<close>, and so the Fiat-Shamir derivation, calls.
\<close>

theorem verifier_takes_challenge_from_blob:
  assumes "lengths_fit l pf"
    and "proof_data p = Some (serialize_proof recursion_level iterations l pf)"
    and "proof_length p = length (serialize_proof recursion_level iterations l pf)"
  shows "verify_trace lib (Some dbytes) initial_form_bytes (Some p) iterations recursion_level =
           (let D = - mpz_import dbytes; L = integer_root lib (- D) 4 in
            case generator lib D of None \<Rightarrow> Exception_caught | Some x \<Rightarrow>
            if \<not> check_valid lib (abs_form pf) D then Rejected_form else
            case square_loop lib (unat iterations) x of None \<Rightarrow> Exception_caught | Some y \<Rightarrow>
            if l = 0 then Division_by_zero else
            case FastPowFormNucomp lib (abs_form pf) D \<bar>l\<bar> L of
              None \<Rightarrow> Exception_caught | Some pi_to_l \<Rightarrow>
            case FastPowFormNucomp lib x D ((2 ^ unat iterations) mod \<bar>l\<bar>) L of
              None \<Rightarrow> Exception_caught | Some x_to_r \<Rightarrow>
            case compose lib pi_to_l x_to_r of
              None \<Rightarrow> Exception_caught | Some lhs \<Rightarrow>
            Equation (form_a lhs = form_a y \<and> form_b lhs = form_b y \<and> form_c lhs = form_c y))
       \<and> verify_trace (lib\<lparr>mpz_probab_prime_p := prime_test\<rparr>) db ifb pr t rl
           = verify_trace lib db ifb pr t rl"
proof -
  have pb: "proof_bytes p = serialize_proof recursion_level iterations l pf"
    using assms(2,3) by (rule proof_bytes_exact)
  have "parse_proof recursion_level iterations (proof_bytes p) = Some (\<bar>l\<bar>, abs_form pf)"
    using parse_serialize_fit[OF assms(1), of recursion_level iterations "[]"] by (simp add: pb)
  moreover have "\<not> proof_length p < 10"
    using assms(3) length_serialize_ge[of recursion_level iterations l pf] by simp
  ultimately have "verify_trace lib (Some dbytes) initial_form_bytes (Some p) iterations
      recursion_level =
         (case generator lib (- mpz_import dbytes) of None \<Rightarrow> Exception_caught
          | Some x \<Rightarrow> wesolowski_check lib (- mpz_import dbytes) x iterations \<bar>l\<bar> (abs_form pf))"
    using assms(2) by (simp add: verify_trace_def Let_def)
  then show ?thesis
    by (simp add: wesolowski_check_def Let_def verify_trace_prime_test split: option.splits)
qed

text \<open>
  For the discriminant \<open>-23\<close>, \<open>T = 1\<close> and the blob that stores \<open>l = 3\<close> and the form
  \<open>(2, 1, 3)\<close>: the verifier raises the form to the power 3, which is the principal form,
  and \<open>x\<close> to the power \<open>2 mod 3\<close>, and the equation holds.
\<close>

theorem verifier_takes_challenge_from_blob_witness:
  "lengths_fit 3 pi23
   \<and> proof_bytes (proof_of_bytes blob23_l3) = serialize_proof 0 1 3 pi23
   \<and> FastPowFormNucomp class23_lib pi23 (- 23) 3 2 = Some g23
   \<and> FastPowFormNucomp class23_lib g23 (- 23) (2 ^ 1 mod 3) 2 = Some g23
   \<and> verify_trace class23_lib (Some [23]) None (Some (proof_of_bytes blob23_l3)) 1 0
       = Equation True"
proof -
  have fit: "lengths_fit 3 pi23"
    by (simp add: lengths_fit_def pi23_def mpz_export_small)
  have d: "proof_data (proof_of_bytes blob23_l3) = Some (serialize_proof 0 1 3 pi23)"
    and n: "proof_length (proof_of_bytes blob23_l3) = length (serialize_proof 0 1 3 pi23)"
    by (simp_all add: proof_of_bytes_def serialize23_l3)
  have ab: "abs_form pi23 = pi23" by (simp add: abs_form_def pi23_def)
  from verifier_takes_challenge_from_blob[OF fit d n, of class23_lib "[23]" None]
  have "verify_trace class23_lib (Some [23]) None (Some (proof_of_bytes blob23_l3)) 1 0
       = Equation True"
    by (simp add: ab class23_facts class23_pow3 class23_pow_g)
  with fit proof_bytes_exact[OF d n] class23_pow3 class23_pow_g show ?thesis by simp
qed

text \<open>
  Two blobs for the same discriminant, proof form and \<open>T\<close> that differ in the byte of the
  \<open>l\<close> field only. The verifier accepts the first, in which \<open>l\<close> is 3, and rejects the second,
  in which \<open>l\<close> is 5: the third power of \<open>(2, 1, 3)\<close> is the principal form \<open>y\<close> and the
  fifth power is \<open>(2, -1, 3)\<close>. The Fiat-Shamir prime of \<open>(D, x, y, T)\<close> is the same for
  both and is at least \<open>2^263\<close>, so it is neither 3 nor 5.
\<close>

theorem verifier_challenge_counterexample:
  "blob23_l5 = blob23_l3[11 := 5]
   \<and> parse_proof 0 1 blob23_l3 = Some (3, pi23) \<and> parse_proof 0 1 blob23_l5 = Some (5, pi23)
   \<and> FastPowFormNucomp class23_lib pi23 (- 23) 3 2 = Some g23
   \<and> FastPowFormNucomp class23_lib pi23 (- 23) 5 2 = Some \<lparr>form_a = 2, form_b = - 1, form_c = 3\<rparr>
   \<and> cpu_vdf_verify_proof class23_lib (Some [23]) None (Some (proof_of_bytes blob23_l3)) 1 0
       = Some True
   \<and> cpu_vdf_verify_proof class23_lib (Some [23]) None (Some (proof_of_bytes blob23_l5)) 1 0
       = Some False
   \<and> verify_trace class23_lib (Some [23]) None (Some (proof_of_bytes blob23_l5)) 1 0
       = Equation False
   \<and> fiat_shamir_prime class23_lib (- 23) g23 g23 1 \<noteq> Some 3
   \<and> fiat_shamir_prime class23_lib (- 23) g23 g23 1 \<noteq> Some 5"
proof -
  have b: "blob23_l5 = blob23_l3[11 := 5]"
    by (simp add: blob23_l5_def blob23_l3_def)
  have pb: "proof_bytes (proof_of_bytes bs) = bs" "proof_data (proof_of_bytes bs) = Some bs"
      "proof_length (proof_of_bytes bs) = length bs" for bs
    by (simp_all add: proof_bytes_def proof_of_bytes_def)
  have len: "length blob23_l3 = 21" "length blob23_l5 = 21"
    by (simp_all add: blob23_l3_def blob23_l5_def)
  have sq: "square_loop class23_lib (unat (1 :: 64 word)) g23 = Some g23"
    by (simp add: class23_facts)
  have t3: "verify_trace class23_lib (Some [23]) None (Some (proof_of_bytes blob23_l3)) 1 0
       = Equation True"
    by (simp add: verify_trace_def pb len parse_blob23_l3 wesolowski_check_def class23_facts
          class23_pow3 class23_pow_g sq)
  have t5: "verify_trace class23_lib (Some [23]) None (Some (proof_of_bytes blob23_l5)) 1 0
       = Equation False"
    by (simp add: verify_trace_def pb len parse_blob23_l5 wesolowski_check_def class23_facts
          class23_pow5 class23_pow_g sq g23_sel)
  have fs: "fiat_shamir_prime class23_lib (- 23) g23 g23 1 \<noteq> Some l" if "l < 2 ^ 263" for l
    using fiat_shamir_prime_ge[of class23_lib "- 23" g23 g23 1 l] that by auto
  from b parse_blob23_l3 parse_blob23_l5 class23_pow3 class23_pow5 t3 t5 fs[of 3] fs[of 5]
  show ?thesis by (simp add: cpu_vdf_verify_proof_def)
qed

subsection \<open>C2: the iteration bytes of a checkpoint proof\<close>




subsection \<open>C3: the initial form argument\<close>

text \<open>
  C3 (as the code has it). The initial-form argument is never used: each of
  \<^verbatim>\<open>cpu_vdf_start_computation\<close>, \<^verbatim>\<open>cpu_vdf_start_computation_with_discriminant\<close> and the
  verifier gives the same result for every provided form as for a null pointer, and
  after a successful start the initial form of the context is \<^verbatim>\<open>generator(D)\<close>.
\<close>

theorem initial_form_argument_ignored:
  "cpu_vdf_start_computation lib thread_ok ctx challenge_hash (Some form_bytes) iterations bits
     = cpu_vdf_start_computation lib thread_ok ctx challenge_hash None iterations bits
   \<and> cpu_vdf_start_computation_with_discriminant lib thread_ok ctx discriminant_bytes
       (Some form_bytes) iterations
     = cpu_vdf_start_computation_with_discriminant lib thread_ok ctx discriminant_bytes None iterations
   \<and> verify_trace lib discriminant_bytes (Some form_bytes) proof iterations recursion_level
     = verify_trace lib discriminant_bytes None proof iterations recursion_level
   \<and> (cpu_vdf_start_computation lib thread_ok ctx challenge_hash (Some form_bytes) iterations bits
         = Some (CPU_VDF_SUCCESS, Some c')
       \<longrightarrow> generator lib (ctx_discriminant c') = Some (ctx_initial_form c'))
   \<and> (cpu_vdf_start_computation_with_discriminant lib thread_ok ctx discriminant_bytes
         (Some form_bytes) iterations = (CPU_VDF_SUCCESS, Some c'')
       \<longrightarrow> generator lib (ctx_discriminant c'') = Some (ctx_initial_form c''))"
proof -
  have 1: "cpu_vdf_start_computation lib thread_ok ctx challenge_hash (Some form_bytes) iterations bits
     = cpu_vdf_start_computation lib thread_ok ctx challenge_hash None iterations bits"
    by (simp add: cpu_vdf_start_computation_def Let_def split: option.splits)
  have 2: "cpu_vdf_start_computation_with_discriminant lib thread_ok ctx discriminant_bytes
       (Some form_bytes) iterations
     = cpu_vdf_start_computation_with_discriminant lib thread_ok ctx discriminant_bytes None iterations"
    by (simp add: cpu_vdf_start_computation_with_discriminant_def)
  have 3: "verify_trace lib discriminant_bytes (Some form_bytes) proof iterations recursion_level
     = verify_trace lib discriminant_bytes None proof iterations recursion_level"
    by (simp add: verify_trace_def)
  have 4: "generator lib (ctx_discriminant c') = Some (ctx_initial_form c')"
    if "cpu_vdf_start_computation lib thread_ok ctx challenge_hash (Some form_bytes) iterations bits
         = Some (CPU_VDF_SUCCESS, Some c')"
    using that
    by (auto simp: cpu_vdf_start_computation_def Let_def split: option.splits if_splits)
  have 5: "generator lib (ctx_discriminant c'') = Some (ctx_initial_form c'')"
    if "cpu_vdf_start_computation_with_discriminant lib thread_ok ctx discriminant_bytes
         (Some form_bytes) iterations = (CPU_VDF_SUCCESS, Some c'')"
    using that
    by (auto simp: cpu_vdf_start_computation_with_discriminant_def start_with_discriminant_checked_def
          Let_def split: option.splits if_splits)
  from 1 2 3 4 5 show ?thesis by blast
qed

text \<open>Both start functions on a fresh context, with the one-byte form argument \<open>08\<close>.\<close>

theorem initial_form_argument_ignored_witness:
  "cpu_vdf_start_computation principal_lib True (cpu_vdf_create (Some cfg2)) (Some challenge32)
       (Some [8]) 4 64 = Some (CPU_VDF_SUCCESS, Some started_by_challenge)
   \<and> generator principal_lib (ctx_discriminant started_by_challenge)
       = Some (ctx_initial_form started_by_challenge)
   \<and> cpu_vdf_start_computation_with_discriminant principal_lib True (cpu_vdf_create (Some cfg2))
       (Some [7]) (Some [8]) 4 = (CPU_VDF_SUCCESS, Some started_by_discriminant)
   \<and> generator principal_lib (ctx_discriminant started_by_discriminant)
       = Some (ctx_initial_form started_by_discriminant)"
  using initial_form_argument_ignored[of principal_lib True "cpu_vdf_create (Some cfg2)"
      "Some challenge32" "[8]" 4 64 "Some [7]" None 0 started_by_challenge started_by_discriminant]
  by (simp add: start_challenge_bytes start_discriminant_bytes)

text \<open>
  Two different provided byte strings lead to the same context, whose initial form is
  the generator of the discriminant.
\<close>

theorem initial_form_counterexample:
  "cpu_vdf_start_computation principal_lib True (cpu_vdf_create (Some cfg2)) (Some challenge32)
       (Some [2, 1, 4]) 4 64 = Some (CPU_VDF_SUCCESS, Some started_by_challenge)
   \<and> cpu_vdf_start_computation principal_lib True (cpu_vdf_create (Some cfg2)) (Some challenge32)
       (Some [3, 1, 1]) 4 64 = Some (CPU_VDF_SUCCESS, Some started_by_challenge)
   \<and> ctx_initial_form started_by_challenge = g7
   \<and> generator principal_lib (ctx_discriminant started_by_challenge) = Some g7"
  by (simp add: start_challenge_bytes started_by_challenge_def generator_principal g7_def)

subsection \<open>C4: the layout of the final proof\<close>

text \<open>
  C4 (as the code has it). A blob that \<^verbatim>\<open>cpu_vdf_generate_proof\<close> returns with success is
  version byte 2, the recursion level, \<open>T\<close> in 8 big-endian bytes, a length byte, the
  magnitude of the Fiat-Shamir prime \<open>l\<close>, and the magnitudes of the three coefficients of
  \<open>\<pi> = x^(2^T div l)\<close>, each after two length bytes. The length byte is the byte count of
  \<open>l\<close> modulo 256, and two length bytes are, big-endian, the byte count of the coefficient
  modulo 65536, so each is the byte count itself when that is below 256, respectively
  below 65536. When all four counts fit, the verifier's
  parser returns \<open>l\<close> and the magnitudes of the coefficients from this blob. For each proof
  buffer, the verifier returns false when the first byte is not 2, when the second byte
  is not the claimed recursion level, or when the 8 bytes after them do not encode the
  claimed iteration count.
\<close>

theorem generate_proof_layout:
  assumes "cpu_vdf_generate_proof lib alloc_ok (Some c) recursion_level (Some p)
             = Some (CPU_VDF_SUCCESS, Some p')"
  shows "(\<exists>l pf.
            fiat_shamir_prime lib (ctx_discriminant c) (ctx_initial_form c) (ctx_final_form c)
               (ctx_target_iterations c) = Some l
          \<and> FastPowFormNucomp lib (ctx_initial_form c) (ctx_discriminant c)
               ((2 ^ unat (ctx_target_iterations c)) div l)
               (integer_root lib (- ctx_discriminant c) 4) = Some pf
          \<and> proof_data p' = Some (proof_bytes p') \<and> proof_length p' = length (proof_bytes p')
          \<and> proof_layout recursion_level (ctx_target_iterations c) l pf (proof_bytes p')
          \<and> (lengths_fit l pf \<longrightarrow>
               parse_proof recursion_level (ctx_target_iterations c) (proof_bytes p')
                 = Some (l, abs_form pf)))
       \<and> (take 1 (proof_bytes q) \<noteq> [2] \<or> take 1 (drop 1 (proof_bytes q)) \<noteq> [claimed_level]
            \<or> read_be64 (take 8 (drop 2 (proof_bytes q))) \<noteq> claimed_iterations
          \<longrightarrow> cpu_vdf_verify_proof lib' db ifb (Some q) claimed_iterations claimed_level = Some False)"
proof -
  from assms obtain l where l: "fiat_shamir_prime lib (ctx_discriminant c) (ctx_initial_form c)
       (ctx_final_form c) (ctx_target_iterations c) = Some l"
    by (auto simp: cpu_vdf_generate_proof_def split: if_splits option.splits)
  from assms l obtain pf where pf: "FastPowFormNucomp lib (ctx_initial_form c) (ctx_discriminant c)
               ((2 ^ unat (ctx_target_iterations c)) div l)
               (integer_root lib (- ctx_discriminant c) 4) = Some pf"
    by (auto simp: cpu_vdf_generate_proof_def Let_def split: if_splits option.splits)
  define blob where "blob = serialize_proof recursion_level (ctx_target_iterations c) l pf"
  from assms l pf have p': "proof_data p' = Some blob" "proof_length p' = length blob"
    by (auto simp: cpu_vdf_generate_proof_def Let_def blob_def split: if_splits)
  then have pb: "proof_bytes p' = blob" by (rule proof_bytes_exact)
  have lay: "proof_layout recursion_level (ctx_target_iterations c) l pf blob"
    unfolding blob_def by (rule serialize_proof_layout)
  have "0 \<le> l" using fiat_shamir_prime_ge[OF l] by simp
  then have "parse_proof recursion_level (ctx_target_iterations c) blob = Some (l, abs_form pf)"
    if "lengths_fit l pf"
    using parse_serialize_fit[OF that, of recursion_level "ctx_target_iterations c" "[]"]
    by (simp add: blob_def)
  with l pf p' lay pb verify_rejects_header[of q claimed_level claimed_iterations lib' db ifb]
  show ?thesis by auto
qed

text \<open>
  The proof generated for the completed run of 4 iterations with discriminant \<open>-7\<close>, and
  its verification with the claimed recursion level 1 instead of 0.
\<close>

theorem generate_proof_layout_witness:
  "\<exists>p' l. cpu_vdf_generate_proof principal_lib True (Some completed_by_discriminant) 0
              (Some (proof_of_bytes [])) = Some (CPU_VDF_SUCCESS, Some p')
      \<and> proof_layout 0 4 l g7 (proof_bytes p') \<and> lengths_fit l g7
      \<and> parse_proof 0 4 (proof_bytes p') = Some (l, g7)
      \<and> take 1 (drop 1 (proof_bytes p')) \<noteq> [1]
      \<and> cpu_vdf_verify_proof principal_lib (Some [7]) None (Some p') 4 1 = Some False"
proof -
  obtain l where l: "fiat_shamir_prime principal_lib (- 7) g7 g7 4 = Some l"
    and fit: "length (mpz_export l) < 256"
    using fiat_shamir_principal[of "- 7" g7 g7 4] by blast
  define p' where "p' = (proof_of_bytes [])\<lparr>proof_data := Some (serialize_proof 0 4 l g7),
      proof_length := length (serialize_proof 0 4 l g7), proof_iterations := 4, is_valid := True,
      proof_recursion_level := 0\<rparr>"
  have c: "ctx_discriminant completed_by_discriminant = - 7"
      "ctx_initial_form completed_by_discriminant = g7"
      "ctx_final_form completed_by_discriminant = g7"
      "ctx_target_iterations completed_by_discriminant = 4"
      "ctx_state completed_by_discriminant = CPU_VDF_STATE_COMPLETED"
    by (simp_all add: completed_by_discriminant_def started_by_discriminant_def started_by_challenge_def)
  have gen: "cpu_vdf_generate_proof principal_lib True (Some completed_by_discriminant) 0
              (Some (proof_of_bytes [])) = Some (CPU_VDF_SUCCESS, Some p')"
    by (simp add: cpu_vdf_generate_proof_def c l FastPow_principal p'_def Let_def)
  have lf: "lengths_fit l g7"
    using fit by (simp add: lengths_fit_def g7_def mpz_export_small)
  have pb: "proof_bytes p' = serialize_proof 0 4 l g7"
    by (simp add: proof_bytes_def p'_def)
  have rec: "take 1 (drop 1 (proof_bytes p')) \<noteq> [1]"
    by (simp add: pb serialize_proof_def)
  have ag: "abs_form g7 = g7" by (simp add: abs_form_def g7_def)
  from generate_proof_layout[OF gen, of p' 1 4 principal_lib "Some [7]" None] l lf rec ag
  have "proof_layout 0 4 l g7 (proof_bytes p') \<and> parse_proof 0 4 (proof_bytes p') = Some (l, g7)
        \<and> cpu_vdf_verify_proof principal_lib (Some [7]) None (Some p') 4 1 = Some False"
    by (auto simp: c FastPow_principal)
  with gen lf rec show ?thesis by blast
qed

text \<open>
  A coefficient of 65536 bytes, \<open>256^65535\<close>, is written after the two length bytes
  \<open>00 00\<close>: the size is narrowed to 16 bits.
\<close>

theorem length_prefix_counterexample:
  "take 2 (add_integer (256 ^ 65535)) = [0, 0] \<and> length (mpz_export (256 ^ 65535)) = 65536"
proof -
  have "take 2 (0 # 0 # mpz_export (256 ^ 65535)) = [0, 0]"
    by (simp only: take_Suc_Cons take_0 numeral_2_eq_2)
  then show ?thesis
    by (simp only: add_integer_wraps_gen[OF length_export_big] length_export_big simp_thms)
qed

subsection \<open>C5: the checkpoints of a run started with a discriminant\<close>

text \<open>
  C5 (the code at a failing input). A fresh context with \<open>segment_size = 2\<close> is started by
  \<^verbatim>\<open>cpu_vdf_start_computation_with_discriminant\<close> with the discriminant byte \<open>07\<close> and 4
  iterations; the worker completes; \<^verbatim>\<open>cpu_vdf_get_checkpoint_proofs\<close> for the iterations 0
  to 4 with room for 10 records returns the iterations 2 and 4, and no record for
  iteration 0.
\<close>

theorem checkpoints_after_start_with_discriminant:
  "cpu_vdf_start_computation_with_discriminant principal_lib True (cpu_vdf_create (Some cfg2))
       (Some [7]) None 4 = (CPU_VDF_SUCCESS, Some started_by_discriminant)
   \<and> vdf_computation_thread principal_lib None 0 started_by_discriminant
       = Some completed_by_discriminant
   \<and> ctx_state completed_by_discriminant = CPU_VDF_STATE_COMPLETED
   \<and> fst (cpu_vdf_get_checkpoint_proofs (Some completed_by_discriminant) 0 4 True (Some 10))
       = CPU_VDF_SUCCESS
   \<and> map (\<lambda>p. (out_iteration p, has_proof p))
         (snd (cpu_vdf_get_checkpoint_proofs (Some completed_by_discriminant) 0 4 True (Some 10)))
       = [(2, False), (4, False)]"
  by (simp add: start_discriminant_bytes run_by_discriminant cpu_vdf_get_checkpoint_proofs_def
        completed_by_discriminant_def export_checkpoint_def new_CheckpointProof_def Let_def)

subsection \<open>C6: importing a discriminant\<close>

text \<open>
  C6. For every byte string, the discriminant that
  \<^verbatim>\<open>cpu_vdf_start_computation_with_discriminant\<close> computes is the adjustment of the
  specification: the imported magnitude negated, and, if that is not congruent to 1
  modulo 4, minus its remainder modulo 4 plus 1, and minus 4 if that is non-negative.
  Lines 475-478 return \<^verbatim>\<open>CPU_VDF_ERROR_INVALID_DISCRIMINANT\<close> for every value that is not
  strictly negative; with a non-null context not in the computing state, a non-empty
  byte string and a non-zero iteration count the call is those lines and what follows
  them, applied to the adjusted value. On success the discriminant in the context is the
  adjusted value, it is negative, and it is congruent to 1 modulo 4.
\<close>

theorem discriminant_import_adjusted:
  "import_discriminant bs = spec_discriminant (mpz_import bs)
   \<and> (\<not> d < 0 \<longrightarrow>
        fst (start_with_discriminant_checked lib thread_ok c d iterations)
          = CPU_VDF_ERROR_INVALID_DISCRIMINANT)
   \<and> (bs \<noteq> [] \<and> iterations \<noteq> 0 \<and> ctx_state c \<noteq> CPU_VDF_STATE_COMPUTING \<longrightarrow>
        cpu_vdf_start_computation_with_discriminant lib thread_ok (Some c) (Some bs) ifb iterations
          = start_with_discriminant_checked lib thread_ok c (import_discriminant bs) iterations)
   \<and> (cpu_vdf_start_computation_with_discriminant lib thread_ok (Some c) (Some bs) ifb iterations
          = (CPU_VDF_SUCCESS, Some c')
        \<longrightarrow> ctx_discriminant c' = import_discriminant bs
            \<and> ctx_discriminant c' < 0 \<and> ctx_discriminant c' mod 4 = 1)"
proof -
  have 2: "fst (start_with_discriminant_checked lib thread_ok c d iterations)
          = CPU_VDF_ERROR_INVALID_DISCRIMINANT" if "\<not> d < 0"
    using that by (simp add: start_with_discriminant_checked_def)
  have 3: "cpu_vdf_start_computation_with_discriminant lib thread_ok (Some c) (Some bs) ifb iterations
          = start_with_discriminant_checked lib thread_ok c (import_discriminant bs) iterations"
    if "bs \<noteq> [] \<and> iterations \<noteq> 0 \<and> ctx_state c \<noteq> CPU_VDF_STATE_COMPUTING"
    using that by (simp add: cpu_vdf_start_computation_with_discriminant_def)
  have 4: "ctx_discriminant c' = import_discriminant bs"
    if "cpu_vdf_start_computation_with_discriminant lib thread_ok (Some c) (Some bs) ifb iterations
          = (CPU_VDF_SUCCESS, Some c')"
    using that
    by (auto simp: cpu_vdf_start_computation_with_discriminant_def start_with_discriminant_checked_def
          Let_def split: option.splits if_splits)
  from import_discriminant_spec[of bs] import_discriminant_valid[of bs] 2 3 4
  show ?thesis by simp
qed

text \<open>
  The byte \<open>08\<close>: \<open>-8\<close> is adjusted to \<open>-7\<close> and the start succeeds; the value 0 is
  rejected by lines 475-478.
\<close>

theorem discriminant_import_adjusted_witness:
  "import_discriminant [8] = spec_discriminant 8 \<and> import_discriminant [8] = - 7
   \<and> fst (start_with_discriminant_checked principal_lib True started_by_challenge 0 4)
       = CPU_VDF_ERROR_INVALID_DISCRIMINANT
   \<and> cpu_vdf_start_computation_with_discriminant principal_lib True (Some started_by_challenge)
        (Some [8]) None 4
       = (CPU_VDF_SUCCESS, Some started_by_challenge)
   \<and> ctx_discriminant started_by_challenge = import_discriminant [8]
   \<and> ctx_discriminant started_by_challenge < 0 \<and> ctx_discriminant started_by_challenge mod 4 = 1"
proof -
  have i: "import_discriminant [8] = - 7"
    by (simp add: import_discriminant_def)
  have s: "cpu_vdf_start_computation_with_discriminant principal_lib True (Some started_by_challenge)
        (Some [8]) None 4 = (CPU_VDF_SUCCESS, Some started_by_challenge)"
    by (simp add: cpu_vdf_start_computation_with_discriminant_def start_with_discriminant_checked_def
        i principal_lib_def started_by_challenge_def cfg2_def g7_def)
  from discriminant_import_adjusted[of "[8]" 0 principal_lib True started_by_challenge 4 None
      started_by_challenge] i s
  show ?thesis by (simp add: started_by_challenge_def)
qed

subsection \<open>C7: truncated proofs\<close>

text \<open>
  C7. For every proof buffer that is truncated (shorter than the header with the length
  byte of \<open>l\<close>, or with a length-prefixed field that runs past the end of the buffer), the
  parser returns nothing, \<^verbatim>\<open>cpu_vdf_verify_proof\<close> returns at the argument check or in the
  parsing part, before any class-group operation, and its result is false.
\<close>

theorem verify_rejects_truncated:
  assumes "blob_truncated (proof_bytes p)"
  shows "parse_proof recursion_level iterations (proof_bytes p) = None
         \<and> (verify_trace lib discriminant_bytes initial_form_bytes (Some p) iterations recursion_level
               = Rejected_arguments
            \<or> verify_trace lib discriminant_bytes initial_form_bytes (Some p) iterations recursion_level
               = Rejected_blob)
         \<and> cpu_vdf_verify_proof lib discriminant_bytes initial_form_bytes (Some p) iterations
               recursion_level = Some False"
proof -
  have none: "parse_proof recursion_level iterations (proof_bytes p) = None"
  proof (cases "parse_proof recursion_level iterations (proof_bytes p)")
    case None
    then show ?thesis .
  next
    case (Some res)
    from parse_proof_Some_not_truncated[OF this] assms show ?thesis by simp
  qed
  then have tr: "verify_trace lib discriminant_bytes initial_form_bytes (Some p) iterations recursion_level
               = Rejected_arguments
            \<or> verify_trace lib discriminant_bytes initial_form_bytes (Some p) iterations recursion_level
               = Rejected_blob"
    by (simp add: verify_trace_def split: option.splits)
  then have "cpu_vdf_verify_proof lib discriminant_bytes initial_form_bytes (Some p) iterations
               recursion_level = Some False"
    by (auto simp: cpu_vdf_verify_proof_def)
  with none tr show ?thesis by simp
qed

text \<open>A blob cut in the middle of the first coefficient.\<close>

theorem verify_rejects_truncated_witness:
  "blob_truncated (proof_bytes truncated_proof)
   \<and> parse_proof 0 1 (proof_bytes truncated_proof) = None
   \<and> verify_trace principal_lib (Some [7]) None (Some truncated_proof) 1 0 = Rejected_blob
   \<and> cpu_vdf_verify_proof principal_lib (Some [7]) None (Some truncated_proof) 1 0 = Some False"
proof -
  have pb: "proof_bytes truncated_proof = [2, 0, 0, 0, 0, 0, 0, 0, 0, 1, 1, 3, 0, 1]"
    by (simp add: proof_bytes_def truncated_proof_def)
  have tr: "blob_truncated (proof_bytes truncated_proof)"
    by (simp add: pb blob_truncated_def be16_at_def)
  have "verify_trace principal_lib (Some [7]) None (Some truncated_proof) 1 0 \<noteq> Rejected_arguments"
    using verify_rejects_truncated[OF tr, of 0 1 principal_lib "Some [7]" None]
    by (simp add: verify_trace_def truncated_proof_def)
  with verify_rejects_truncated[OF tr, of 0 1 principal_lib "Some [7]" None] tr
  show ?thesis by simp
qed

subsection \<open>C8: the signs of the coefficients\<close>

text \<open>
  C8 (as the code has it). For every challenge and proof form whose byte counts fit their
  length fields, the verifier's parser returns, from the serialized proof, the
  magnitudes \<open>(|a|, |b|, |c|)\<close> of the form's coefficients; if \<open>b\<close> is negative, the parsed
  form is not the serialized one.
\<close>

theorem parse_serialize_magnitudes:
  assumes "lengths_fit l pf"
  shows "parse_proof r t (serialize_proof r t l pf) = Some (\<bar>l\<bar>, abs_form pf)
         \<and> (form_b pf < 0 \<longrightarrow> parse_proof r t (serialize_proof r t l pf) \<noteq> Some (\<bar>l\<bar>, pf))"
proof -
  have p: "parse_proof r t (serialize_proof r t l pf) = Some (\<bar>l\<bar>, abs_form pf)"
    using parse_serialize_fit[OF assms, of r t "[]"] by simp
  have "abs_form pf \<noteq> pf" if "form_b pf < 0"
  proof
    assume "abs_form pf = pf"
    then have "form_b (abs_form pf) = form_b pf" by simp
    with that show False by (simp add: abs_form_def)
  qed
  with p show ?thesis by simp
qed

text \<open>The form \<open>(2, -1, 1)\<close> is parsed as \<open>(2, 1, 1)\<close>.\<close>

theorem parse_serialize_magnitudes_witness:
  "lengths_fit 3 \<lparr>form_a = 2, form_b = - 1, form_c = 1\<rparr>
   \<and> parse_proof 0 1 (serialize_proof 0 1 3 \<lparr>form_a = 2, form_b = - 1, form_c = 1\<rparr>)
       = Some (3, \<lparr>form_a = 2, form_b = 1, form_c = 1\<rparr>)
   \<and> parse_proof 0 1 (serialize_proof 0 1 3 \<lparr>form_a = 2, form_b = - 1, form_c = 1\<rparr>)
       \<noteq> Some (3, \<lparr>form_a = 2, form_b = - 1, form_c = 1\<rparr>)"
proof -
  have fit: "lengths_fit 3 \<lparr>form_a = 2, form_b = - 1, form_c = 1\<rparr>"
    by (simp add: lengths_fit_def mpz_export_small mpz_export_neg1)
  from parse_serialize_magnitudes[OF fit, of 0 1] fit show ?thesis
    by (simp add: abs_form_def)
qed

text \<open>
  For the form \<open>(1, 1, 256^65535)\<close>, whose third coefficient has 65536 bytes, the two
  length bytes are \<open>00 00\<close> and the parser returns \<open>(1, 1, 0)\<close>, not the magnitudes.
\<close>

theorem parse_serialize_counterexample:
  "parse_proof 0 1 (serialize_proof 0 1 3 \<lparr>form_a = 1, form_b = 1, form_c = 256 ^ 65535\<rparr>)
     = Some (3, \<lparr>form_a = 1, form_b = 1, form_c = 0\<rparr>)"
  by (rule parse_wrapped_length) (rule length_export_big)

subsection \<open>C9: the target of cpu\_vdf\_generate\_proof\_for\_iterations\<close>

text \<open>
  C9. For every context, the completed ones included, and every \<open>target_iterations\<close> that
  does not exceed the context's target, \<^verbatim>\<open>cpu_vdf_generate_proof_for_iterations\<close> returns
  what \<^verbatim>\<open>cpu_vdf_generate_proof\<close> returns: the argument is used for the validity check
  only.
\<close>

theorem generate_proof_for_iterations_ignores_target:
  assumes "target_iterations \<le> ctx_target_iterations c"
  shows "cpu_vdf_generate_proof_for_iterations lib alloc_ok (Some c) target_iterations
           recursion_level (Some p)
         = cpu_vdf_generate_proof lib alloc_ok (Some c) recursion_level (Some p)"
  using assms by (auto simp add: cpu_vdf_generate_proof_for_iterations_def)

text \<open>The completed run of 4 iterations, with the targets 2 and 4.\<close>

theorem generate_proof_for_iterations_ignores_target_witness:
  "ctx_state completed_by_discriminant = CPU_VDF_STATE_COMPLETED
   \<and> 2 \<le> ctx_target_iterations completed_by_discriminant
   \<and> cpu_vdf_generate_proof_for_iterations principal_lib True (Some completed_by_discriminant) 2 0
         (Some (proof_of_bytes []))
       = cpu_vdf_generate_proof principal_lib True (Some completed_by_discriminant) 0
         (Some (proof_of_bytes []))
   \<and> cpu_vdf_generate_proof_for_iterations principal_lib True (Some completed_by_discriminant) 4 0
         (Some (proof_of_bytes []))
       = cpu_vdf_generate_proof principal_lib True (Some completed_by_discriminant) 0
         (Some (proof_of_bytes []))"
proof -
  have s: "ctx_state completed_by_discriminant = CPU_VDF_STATE_COMPLETED"
    and t: "ctx_target_iterations completed_by_discriminant = 4"
    by (simp_all add: completed_by_discriminant_def started_by_discriminant_def started_by_challenge_def)
  have le: "(2::64 word) \<le> ctx_target_iterations completed_by_discriminant"
      "(4::64 word) \<le> ctx_target_iterations completed_by_discriminant"
    by (simp_all add: t)
  from generate_proof_for_iterations_ignores_target[OF le(1)]
       generate_proof_for_iterations_ignores_target[OF le(2)] s le
  show ?thesis by simp
qed

subsection \<open>C10: has\_proof\_ready\<close>

text \<open>
  C10. For every context, whatever its state, and every clock reading,
  \<^verbatim>\<open>cpu_vdf_get_status\<close> succeeds and the status it fills has \<open>has_proof_ready = false\<close>.
\<close>

theorem get_status_never_reports_proof_ready:
  "\<exists>s'. cpu_vdf_get_status now (Some c) (Some s) = (CPU_VDF_SUCCESS, Some s')
        \<and> \<not> has_proof_ready s'"
  by (simp add: cpu_vdf_get_status_def)

section \<open>The checkpoints of a completed run\<close>

text \<open>
  For a run started by \<^verbatim>\<open>cpu_vdf_start_computation\<close> on a configuration with a positive
  \<open>segment_size\<close>, with a target that is less than \<open>2^64 - 1000\<close>, whose worker ends in the state
  COMPLETED: whatever range and capacity \<^verbatim>\<open>cpu_vdf_get_checkpoint_proofs\<close> is called with, the
  iterations of the records it returns are strictly increasing; and when the range is 0 up to the
  target or more and the capacity is at least the number of stored checkpoints, it returns every
  stored checkpoint, there is at least one, the first is at iteration 0 and the last is at the
  target.
\<close>

theorem completed_run_checkpoints:
  assumes start: "cpu_vdf_start_computation lib thread_ok (Some c) challenge_hash initial_form_bytes
             iterations bits = Some (CPU_VDF_SUCCESS, Some c1)"
    and seg: "0 < segment_size (ctx_config c)"
    and nw: "unat iterations + 1000 < 2 ^ 64"
    and run: "vdf_computation_thread lib stop_after started_at c1 = Some c2"
    and fin: "ctx_state c2 = CPU_VDF_STATE_COMPLETED"
  shows "sorted_wrt (<) (map out_iteration
            (snd (cpu_vdf_get_checkpoint_proofs (Some c2) start_iteration end_iteration True
                    (Some max_proofs))))
       \<and> (length (ctx_checkpoint_proofs c2) \<le> max_proofs \<and> iterations \<le> end_iteration \<longrightarrow>
            map out_iteration
              (snd (cpu_vdf_get_checkpoint_proofs (Some c2) 0 end_iteration True (Some max_proofs)))
              = map cp_iteration (ctx_checkpoint_proofs c2)
          \<and> ctx_checkpoint_proofs c2 \<noteq> []
          \<and> cp_iteration (hd (ctx_checkpoint_proofs c2)) = 0
          \<and> cp_iteration (last (ctx_checkpoint_proofs c2)) = iterations)"
proof -
  note fl = start_computation_flags[OF start seg]
  from fl have T: "ctx_target_iterations c1 = iterations" by simp
  from completed_run_ordered[OF run fin] fl nw
  have srt: "sorted_wrt (<) (checkpoint_iterations c2)"
    and ne: "checkpoint_iterations c2 \<noteq> []"
    and lst: "last (checkpoint_iterations c2) = unat iterations"
    and bnd: "\<forall>t \<in> set (checkpoint_iterations c2). t \<le> unat iterations"
    and hd0: "hd (checkpoint_iterations c2) = 0"
    by simp_all
  let ?cps = "ctx_checkpoint_proofs c2"
  have ws: "sorted_wrt (<) (map cp_iteration ?cps)"
    using srt by (simp add: sorted_iterations_word)
  have ne': "?cps \<noteq> []" using ne by (simp add: checkpoint_iterations_def)
  have first: "cp_iteration (hd ?cps) = 0"
    using hd0 ne' by (simp add: checkpoint_iterations_def hd_map unat_eq_0)
  have lastT: "cp_iteration (last ?cps) = iterations"
    using lst ne' by (simp add: checkpoint_iterations_def last_map word_unat_eq_iff)
  have le: "cp_iteration cp \<le> iterations" if "cp \<in> set ?cps" for cp
    using bnd that by (auto simp: checkpoint_iterations_def word_le_nat_alt)
  have 1: "sorted_wrt (<) (map out_iteration
            (snd (cpu_vdf_get_checkpoint_proofs (Some c2) start_iteration end_iteration True
                    (Some max_proofs))))"
  proof -
    let ?P = "\<lambda>cp. start_iteration \<le> cp_iteration cp \<and> cp_iteration cp \<le> end_iteration"
    have "sorted_wrt (<) (map cp_iteration (filter ?P ?cps))"
      using ws by (simp add: sorted_wrt_map sorted_wrt_filter)
    then have "sorted_wrt (<) (take max_proofs (map cp_iteration (filter ?P ?cps)))"
      by (rule sorted_wrt_take)
    then show ?thesis
      by (simp add: cpu_vdf_get_checkpoint_proofs_def copy_checkpoints_eq take_map comp_def)
  qed
  have 2: "map out_iteration
              (snd (cpu_vdf_get_checkpoint_proofs (Some c2) 0 end_iteration True (Some max_proofs)))
              = map cp_iteration ?cps"
    if "length ?cps \<le> max_proofs" "iterations \<le> end_iteration"
  proof -
    have "filter (\<lambda>cp. 0 \<le> cp_iteration cp \<and> cp_iteration cp \<le> end_iteration) ?cps = ?cps"
      using le that(2) by (auto simp: filter_id_conv intro: order_trans)
    with that(1) show ?thesis
      by (simp add: cpu_vdf_get_checkpoint_proofs_def copy_checkpoints_eq comp_def)
  qed
  from 1 2 ne' first lastT show ?thesis by blast
qed

text \<open>
  The run of 4 iterations with a checkpoint every 2 iterations: the worker ends in COMPLETED and
  the iterations read back are 0, 2 and 4.
\<close>

theorem completed_run_checkpoints_witness:
  "cpu_vdf_start_computation principal_lib True (cpu_vdf_create (Some cfg2)) (Some challenge32)
       None 4 64 = Some (CPU_VDF_SUCCESS, Some started_by_challenge)
   \<and> vdf_computation_thread principal_lib None 0 started_by_challenge = Some completed_by_challenge
   \<and> map out_iteration
        (snd (cpu_vdf_get_checkpoint_proofs (Some completed_by_challenge) 0 4 True (Some 8)))
      = [0, 2, 4]"
proof -
  have c: "cpu_vdf_create (Some cfg2) = Some (the (cpu_vdf_create (Some cfg2)))"
    by (simp add: cpu_vdf_create_def)
  have seg: "0 < segment_size (ctx_config (the (cpu_vdf_create (Some cfg2))))"
    by (simp add: cpu_vdf_create_def cfg2_def)
  have st: "cpu_vdf_start_computation principal_lib True (Some (the (cpu_vdf_create (Some cfg2))))
       (Some challenge32) None 4 64 = Some (CPU_VDF_SUCCESS, Some started_by_challenge)"
    using start_challenge_bytes[of None] c by simp
  have fin: "ctx_state completed_by_challenge = CPU_VDF_STATE_COMPLETED"
    by (simp add: completed_by_challenge_def)
  have cps: "map cp_iteration (ctx_checkpoint_proofs completed_by_challenge) = [0, 2, 4]"
    by (simp add: completed_by_challenge_def segment_checkpoint7_def)
  have len: "length (ctx_checkpoint_proofs completed_by_challenge) \<le> 8"
    by (simp add: completed_by_challenge_def)
  from completed_run_checkpoints[OF st seg _ run_by_challenge fin, of 0 4 8] len cps
    start_challenge_bytes[of None] run_by_challenge
  show ?thesis by simp
qed

end
